theory Spec2Isabelle
  imports Complex_Main "HOL-Library.List_Lexorder" "HOL-Library.Sublist" "HOL-Library.Multiset"
begin

section \<open>JavaScript strings\<close>

text \<open>
  A JavaScript string is a sequence of UTF-16 code units. A code unit is modelled as a
  natural number (below \<open>2 ^ 16\<close> in the program); no definition depends on the bound, so
  every theorem about all lists of naturals holds for all strings of the program. The regular
  expressions of the source carry no \<open>u\<close> flag: they too work on code units.
\<close>

type_synonym jsstring = "nat list"

definition js :: "string \<Rightarrow> jsstring" where
  "js s = map of_char s"

text \<open>\<open>LineTerminator\<close> of ECMAScript: LF, CR, U+2028, U+2029. The \<open>.\<close> of a regular
  expression matches every code unit but these.\<close>

definition isLineTerminator :: "nat \<Rightarrow> bool" where
  "isLineTerminator c = (c = 10 \<or> c = 13 \<or> c = 8232 \<or> c = 8233)"

text \<open>The code units that \<open>String.prototype.trim\<close> strips and that \<open>\s\<close> matches:
  \<open>WhiteSpace\<close> (TAB, VT, FF, U+FEFF and the space separators) and \<open>LineTerminator\<close>.\<close>

definition isWhiteSpace :: "nat \<Rightarrow> bool" where
  "isWhiteSpace c =
     (c = 9 \<or> c = 11 \<or> c = 12 \<or> c = 32 \<or> c = 160 \<or> c = 5760 \<or>
      (8192 \<le> c \<and> c \<le> 8202) \<or> c = 8239 \<or> c = 8287 \<or> c = 12288 \<or> c = 65279 \<or>
      isLineTerminator c)"

definition trim :: "jsstring \<Rightarrow> jsstring" where
  "trim s = rev (dropWhile isWhiteSpace (rev (dropWhile isWhiteSpace s)))"

text \<open>\<open>s.split(sep)\<close> for a string separator: the pieces between the successive,
  non-overlapping occurrences of \<open>sep\<close>, found from the left. \<open>cur\<close> is the piece being
  read. With the empty separator JavaScript yields the code units one by one.\<close>

function splitFrom :: "jsstring \<Rightarrow> jsstring \<Rightarrow> jsstring \<Rightarrow> jsstring list" where
  "splitFrom sep cur [] = [cur]"
| "splitFrom sep cur (c # cs) =
     (if sep \<noteq> [] \<and> prefix sep (c # cs)
      then cur # splitFrom sep [] (drop (length sep) (c # cs))
      else splitFrom sep (cur @ [c]) cs)"
  by pat_completeness auto
termination
  by (relation "measure (\<lambda>(sep, cur, s). length s)") auto

definition js_split :: "jsstring \<Rightarrow> jsstring \<Rightarrow> jsstring list" where
  "js_split sep s = (if sep = [] then map (\<lambda>c. [c]) s else splitFrom sep [] s)"

text \<open>
  \<open>String.prototype.toLowerCase\<close> is the host's Unicode case mapping and a parameter of
  the functions that call it. \<open>toLowerCaseLatin1\<close> is that mapping on the letters of Basic
  Latin and Latin-1, every other code unit kept: an instance of the parameter for concrete
  strings of such code units.
\<close>

definition toLowerCaseLatin1 :: "jsstring \<Rightarrow> jsstring" where
  "toLowerCaseLatin1 s =
     map (\<lambda>c. if (65 \<le> c \<and> c \<le> 90) \<or> (192 \<le> c \<and> c \<le> 222 \<and> c \<noteq> 215) then c + 32 else c) s"

section \<open>parseTicketInfo (project.jsx)\<close>

record ticketInfo =
  key :: jsstring
  summary :: jsstring
  assignee :: jsstring
  issueType :: jsstring
  priority :: jsstring

text \<open>The literal \<open>'Non assign\<eacute>'\<close>: its last code unit is U+00E9.\<close>

definition NonAssigne :: jsstring where
  "NonAssigne = js ''Non assign'' @ [233]"

text \<open>
  The loop \<^verbatim>\<open>while ((match = bracketRegex.exec(rest)) !== null) brackets.push(match[1])\<close>
  with \<^verbatim>\<open>bracketRegex = /\[([^\]]+)\]/g\<close>. A match starts at a \<open>[\<close> (code unit 91) that
  is followed by at least one code unit other than \<open>]\<close> (93) and, after the longest run of
  such code units, by a \<open>]\<close>; the group is that run, and the search goes on after the
  \<open>]\<close>. Anywhere else the search moves one code unit to the right.
\<close>

function bracketGroups :: "jsstring \<Rightarrow> jsstring list" where
  "bracketGroups [] = []"
| "bracketGroups (c # cs) =
     (if c = 91 \<and> takeWhile (\<lambda>x. x \<noteq> 93) cs \<noteq> [] \<and> dropWhile (\<lambda>x. x \<noteq> 93) cs \<noteq> []
      then takeWhile (\<lambda>x. x \<noteq> 93) cs # bracketGroups (tl (dropWhile (\<lambda>x. x \<noteq> 93) cs))
      else bracketGroups cs)"
  by pat_completeness auto
termination
proof (relation "measure length")
  fix c :: nat and cs :: "nat list"
  assume "c = 91 \<and> takeWhile (\<lambda>x. x \<noteq> 93) cs \<noteq> [] \<and> dropWhile (\<lambda>x. x \<noteq> 93) cs \<noteq> []"
  have "length (tl (dropWhile (\<lambda>x. x \<noteq> 93) cs)) \<le> length (dropWhile (\<lambda>x. x \<noteq> 93) cs)"
    by simp
  also have "\<dots> \<le> length cs"
    by (rule length_dropWhile_le)
  finally show "(tl (dropWhile (\<lambda>x. x \<noteq> 93) cs), c # cs) \<in> measure length"
    by simp
qed simp_all

text \<open>
  \<^verbatim>\<open>rest.match(/^(.+?)\s*\[/)\<close>: the group is the shortest non-empty prefix of \<open>rest\<close>
  without line terminator after which, white space skipped, a \<open>[\<close> stands. \<open>pre\<close> is the
  prefix tried, the third argument what follows it.
\<close>

fun summaryFrom :: "jsstring \<Rightarrow> jsstring \<Rightarrow> jsstring option" where
  "summaryFrom pre [] = None"
| "summaryFrom pre (c # cs) =
     (if (case dropWhile isWhiteSpace (c # cs) of [] \<Rightarrow> False | d # _ \<Rightarrow> d = 91) then Some pre
      else if isLineTerminator c then None
      else summaryFrom (pre @ [c]) cs)"

definition summaryMatch :: "jsstring \<Rightarrow> jsstring option" where
  "summaryMatch rest =
     (case rest of [] \<Rightarrow> None
      | c # cs \<Rightarrow> if isLineTerminator c then None else summaryFrom [c] cs)"

text \<open>\<^verbatim>\<open>summaryMatch ? summaryMatch[1].trim() : rest.trim()\<close>\<close>

definition summaryOf :: "jsstring \<Rightarrow> jsstring" where
  "summaryOf rest = (case summaryMatch rest of Some g \<Rightarrow> trim g | None \<Rightarrow> trim rest)"

text \<open>\<^verbatim>\<open>brackets[0] === 'Unassigned' ? 'Non assign\<eacute>' : brackets[0]\<close>\<close>

definition assigneeOf :: "jsstring \<Rightarrow> jsstring" where
  "assigneeOf a = (if a = js ''Unassigned'' then NonAssigne else a)"

text \<open>
  \<open>parseTicketInfo\<close>; \<open>None\<close> is \<open>null\<close>. On a string no operation of the body throws, so
  the \<open>catch\<close> branch (which also ends in \<open>return null\<close>) is never taken and is left out.
  \<open>parts[0]\<close> and \<open>parts[1]\<close> are read only when \<open>parts\<close> has two elements at least.
\<close>

definition parseTicketInfo :: "jsstring \<Rightarrow> ticketInfo option" where
  "parseTicketInfo ticketString =
     (let parts = js_split (js '': '') ticketString in
      if length parts < 2 then None
      else
        let key = trim (parts ! 0);
            rest = parts ! 1;
            brackets = bracketGroups rest
        in
          if length brackets \<ge> 3 then
            Some \<lparr>key = key, summary = summaryOf rest, assignee = assigneeOf (brackets ! 0),
                  issueType = brackets ! 1,
                  priority = (if brackets ! 2 \<noteq> [] then brackets ! 2 else js ''Medium'')\<rparr>
          else if length brackets \<ge> 2 then
            Some \<lparr>key = key, summary = summaryOf rest, assignee = assigneeOf (brackets ! 0),
                  issueType = brackets ! 1, priority = js ''Medium''\<rparr>
          else None)"

text \<open>
  The ticket strings that \<open>parseTicketInfo\<close> is written for, as its comment gives them:
  \<^verbatim>\<open>// Format: "KEY: SUMMARY [ASSIGNEE] [TYPE] [PRIORITY]"\<close>.
\<close>

definition encodeTicket ::
  "jsstring \<Rightarrow> jsstring \<Rightarrow> jsstring \<Rightarrow> jsstring \<Rightarrow> jsstring \<Rightarrow> jsstring" where
  "encodeTicket K S A T P =
     K @ js '': '' @ S @ js '' ['' @ A @ js ''] ['' @ T @ js ''] ['' @ P @ js '']''"

text \<open>\<open>s.includes(sub)\<close>: \<open>sub\<close> occurs in \<open>s\<close>.\<close>

fun js_includes :: "jsstring \<Rightarrow> jsstring \<Rightarrow> bool" where
  "js_includes [] sub = (sub = [])"
| "js_includes (c # cs) sub = (prefix sub (c # cs) \<or> js_includes cs sub)"

subsection \<open>The fallback of TicketCard\<close>

text \<open>
  When \<open>parseTicketInfo\<close> returns \<open>null\<close>, \<open>TicketCard\<close> computes
  \<^verbatim>\<open>key = ticket.split(':')[0].trim()\<close>,
  \<^verbatim>\<open>rest = ticket.slice(key.length + 1).replace(/^:\s*/, '')\<close>,
  \<^verbatim>\<open>summary = rest.split(' [')[0]\<close> and
  \<^verbatim>\<open>assignee = rest.match(/\[(.*?)\]/)?.[1] || 'Unassigned'\<close>.
\<close>

definition fallbackKey :: "jsstring \<Rightarrow> jsstring" where
  "fallbackKey ticket = trim (hd (js_split (js '':'') ticket))"

text \<open>\<^verbatim>\<open>.replace(/^:\s*/, '')\<close>\<close>

definition stripColon :: "jsstring \<Rightarrow> jsstring" where
  "stripColon r = (case r of [] \<Rightarrow> [] | c # cs \<Rightarrow> if c = 58 then dropWhile isWhiteSpace cs else r)"

definition fallbackRest :: "jsstring \<Rightarrow> jsstring" where
  "fallbackRest ticket = stripColon (drop (length (fallbackKey ticket) + 1) ticket)"

definition fallbackSummary :: "jsstring \<Rightarrow> jsstring" where
  "fallbackSummary ticket = hd (js_split (js '' ['') (fallbackRest ticket))"

text \<open>\<^verbatim>\<open>/\[(.*?)\]/\<close>: the first \<open>[\<close> after which a \<open>]\<close> comes before any line
  terminator; the group is what stands between them.\<close>

fun firstBracket :: "jsstring \<Rightarrow> jsstring option" where
  "firstBracket [] = None"
| "firstBracket (c # cs) =
     (if c = 91 \<and>
         (case dropWhile (\<lambda>x. x \<noteq> 93 \<and> \<not> isLineTerminator x) cs of
            [] \<Rightarrow> False | d # _ \<Rightarrow> d = 93)
      then Some (takeWhile (\<lambda>x. x \<noteq> 93 \<and> \<not> isLineTerminator x) cs)
      else firstBracket cs)"

definition fallbackAssignee :: "jsstring \<Rightarrow> jsstring" where
  "fallbackAssignee ticket =
     (case firstBracket (fallbackRest ticket) of
        None \<Rightarrow> js ''Unassigned''
      | Some g \<Rightarrow> if g \<noteq> [] then g else js ''Unassigned'')"

section \<open>The filter facets of JiraManagerPro (project.jsx)\<close>

text \<open>
  The state \<open>tickets\<close> is an object from status names to arrays of ticket strings. It is
  modelled by the list of its own entries, in the order in which \<open>Object.keys\<close>,
  \<open>Object.values\<close> and \<open>Object.entries\<close> enumerate them.
\<close>

type_synonym board = "(jsstring \<times> jsstring list) list"







section \<open>getOrderedStatuses (project.jsx)\<close>

text \<open>
  \<open>statusOrder\<close> is an object literal, so \<open>statusOrder[a]\<close> finds the sixteen own
  properties and, for every other name, what the object inherits from \<open>Object.prototype\<close>:
  a function under the names below (the object \<open>Object.prototype\<close> itself under
  \<open>__proto__\<close>). A value read from \<open>statusOrder\<close> is therefore a number or one of these
  objects, named here by the property that yields it; two of them under different names are
  different objects.
\<close>

datatype jsvalue = Num int | Inherited jsstring

definition statusOrder :: "(jsstring \<times> int) list" where
  "statusOrder =
     [([192] @ js '' faire'', 1), (js ''A faire'', 1), (js ''Todo'', 1), (js ''TO DO'', 1),
      (js ''Open'', 1),
      (js ''En cours'', 2), (js ''IN PROGRESS'', 2), (js ''In Progress'', 2), (js ''Progress'', 2),
      (js ''Termin'' @ [233], 3), (js ''Termin'' @ [233] @ js ''e'', 3),
      (js ''Termin'' @ [233] @ js ''es'', 3),
      (js ''Done'', 3), (js ''DONE'', 3), (js ''Closed'', 3), (js ''Resolved'', 3)]"

definition objectPrototypeKeys :: "jsstring list" where
  "objectPrototypeKeys =
     [js ''constructor'', js ''hasOwnProperty'', js ''isPrototypeOf'',
      js ''propertyIsEnumerable'', js ''toLocaleString'', js ''toString'', js ''valueOf'',
      js ''__proto__'', js ''__defineGetter__'', js ''__defineSetter__'',
      js ''__lookupGetter__'', js ''__lookupSetter__'']"

text \<open>\<open>statusOrder[a]\<close>; \<open>None\<close> is \<open>undefined\<close>.\<close>

definition statusOrder_get :: "jsstring \<Rightarrow> jsvalue option" where
  "statusOrder_get a =
     (case map_of statusOrder a of
        Some n \<Rightarrow> Some (Num n)
      | None \<Rightarrow> if a \<in> set objectPrototypeKeys then Some (Inherited a) else None)"

definition truthy :: "jsvalue \<Rightarrow> bool" where
  "truthy v = (case v of Num n \<Rightarrow> n \<noteq> 0 | Inherited p \<Rightarrow> True)"

text \<open>\<^verbatim>\<open>statusOrder[a] || 999\<close>\<close>

definition orderOf :: "jsstring \<Rightarrow> jsvalue" where
  "orderOf a =
     (case statusOrder_get a of
        None \<Rightarrow> Num 999
      | Some v \<Rightarrow> if truthy v then v else Num 999)"

text \<open>\<open>orderA - orderB\<close>: the difference of two numbers; \<open>NaN\<close> (here \<open>None\<close>) as soon as
  one operand is a function or a plain object.\<close>

definition js_minus :: "jsvalue \<Rightarrow> jsvalue \<Rightarrow> int option" where
  "js_minus x y = (case (x, y) of (Num m, Num n) \<Rightarrow> Some (m - n) | _ \<Rightarrow> None)"

text \<open>
  The comparator handed to \<open>sort\<close>. \<open>String.prototype.localeCompare\<close> is the host's
  locale-sensitive collation: ECMAScript leaves its values to the implementation, so it is a
  parameter of the model.
\<close>

definition compareStatuses ::
  "(jsstring \<Rightarrow> jsstring \<Rightarrow> int) \<Rightarrow> jsstring \<Rightarrow> jsstring \<Rightarrow> int option" where
  "compareStatuses localeCompare a b =
     (let orderA = orderOf a; orderB = orderOf b in
      if orderA \<noteq> orderB then js_minus orderA orderB
      else Some (localeCompare a b))"

text \<open>
  The value of a comparison as \<open>sort\<close> reads it (\<open>SortCompare\<close>): \<open>NaN\<close> counts as \<open>+0\<close>.
\<close>

definition sortCompare :: "('a \<Rightarrow> 'a \<Rightarrow> int option) \<Rightarrow> 'a \<Rightarrow> 'a \<Rightarrow> int" where
  "sortCompare comparefn x y = (case comparefn x y of None \<Rightarrow> 0 | Some v \<Rightarrow> v)"

text \<open>
  ECMAScript's consistent comparison function for the elements of an array: no comparison
  is \<open>NaN\<close>, every element equals itself, equality is symmetric and transitive, and so
  are being less and being greater.
\<close>

definition consistentOn :: "('a \<Rightarrow> 'a \<Rightarrow> int option) \<Rightarrow> 'a list \<Rightarrow> bool" where
  "consistentOn comparefn xs =
     (\<forall>a\<in>set xs. \<forall>b\<in>set xs. \<forall>c\<in>set xs.
        comparefn a b \<noteq> None \<and>
        comparefn a a = Some 0 \<and>
        (comparefn a b = Some 0 \<longrightarrow> comparefn b a = Some 0) \<and>
        (comparefn a b = Some 0 \<and> comparefn b c = Some 0 \<longrightarrow> comparefn a c = Some 0) \<and>
        (sortCompare comparefn a b < 0 \<and> sortCompare comparefn b c < 0 \<longrightarrow>
           sortCompare comparefn a c < 0) \<and>
        (sortCompare comparefn a b > 0 \<and> sortCompare comparefn b c > 0 \<longrightarrow>
           sortCompare comparefn a c > 0))"

text \<open>Stable sorting by insertion: from the right, each element goes before the first
  one that it does not exceed.\<close>

fun insertBy :: "('a \<Rightarrow> 'a \<Rightarrow> int option) \<Rightarrow> 'a \<Rightarrow> 'a list \<Rightarrow> 'a list" where
  "insertBy comparefn x [] = [x]"
| "insertBy comparefn x (y # ys) =
     (if sortCompare comparefn x y \<le> 0 then x # y # ys else y # insertBy comparefn x ys)"

definition stableSort :: "('a \<Rightarrow> 'a \<Rightarrow> int option) \<Rightarrow> 'a list \<Rightarrow> 'a list" where
  "stableSort comparefn xs = foldr (insertBy comparefn) xs []"

text \<open>
  \<open>Array.prototype.sort\<close> with a comparator. For a comparator that is consistent for the
  elements of the array ECMAScript fixes the result: the elements in the comparator's
  order, equal ones in their former order. For any other comparator (one that yields
  \<open>NaN\<close> for two elements, for instance) the order is implementation-defined: the model
  gives no array then (\<open>None\<close>).
\<close>

definition js_sort :: "('a \<Rightarrow> 'a \<Rightarrow> int option) \<Rightarrow> 'a list \<Rightarrow> 'a list option" where
  "js_sort comparefn xs =
     (if consistentOn comparefn xs then Some (stableSort comparefn xs) else None)"

definition getOrderedStatuses ::
  "(jsstring \<Rightarrow> jsstring \<Rightarrow> int) \<Rightarrow> jsstring list \<Rightarrow> jsstring list option" where
  "getOrderedStatuses localeCompare statuses = js_sort (compareStatuses localeCompare) statuses"

text \<open>
  ECMAScript requires of \<open>localeCompare\<close> that it be a consistent comparison function for
  all strings.
\<close>

definition consistentComparator :: "(jsstring \<Rightarrow> jsstring \<Rightarrow> int) \<Rightarrow> bool" where
  "consistentComparator localeCompare =
     (\<forall>xs. consistentOn (\<lambda>a b. Some (localeCompare a b)) xs)"

text \<open>The comparison of two strings by their code units, as a three-way comparator.\<close>

definition codeUnitCompare :: "jsstring \<Rightarrow> jsstring \<Rightarrow> int" where
  "codeUnitCompare a b = (if a < b then - 1 else if a = b then 0 else 1)"

text \<open>
  An instance of the parameter \<open>localeCompare\<close>, for concrete labels made of Basic Latin
  letters and spaces: the order of locale-sensitive collation on such labels (that of the
  Unicode root collation). Labels are compared without regard to case first; of two labels
  that differ in case only, the one with the lower-case letter at the first difference
  comes first, which is the reverse of their code-unit order. So
  \<open>'DONE'.localeCompare('Done')\<close> is positive and \<open>'blocked'.localeCompare('Review')\<close> is
  negative.
\<close>

definition latinCollate :: "jsstring \<Rightarrow> jsstring \<Rightarrow> int" where
  "latinCollate a b =
     (if toLowerCaseLatin1 a \<noteq> toLowerCaseLatin1 b
      then codeUnitCompare (toLowerCaseLatin1 a) (toLowerCaseLatin1 b)
      else codeUnitCompare b a)"

text \<open>The rank table as the specification words it: the rank listed for a label, 999 for
  a label that is not listed.\<close>

definition rankOf :: "jsstring \<Rightarrow> int" where
  "rankOf a = (case map_of statusOrder a of Some n \<Rightarrow> n | None \<Rightarrow> 999)"

text \<open>The order that the rank table and a three-way comparison of the labels define:
  \<open>a\<close> may stand before \<open>b\<close>.\<close>

definition statusBefore :: "(jsstring \<Rightarrow> jsstring \<Rightarrow> int) \<Rightarrow> jsstring \<Rightarrow> jsstring \<Rightarrow> bool" where
  "statusBefore localeCompare a b =
     (rankOf a < rankOf b \<or> (rankOf a = rankOf b \<and> localeCompare a b \<le> 0))"

section \<open>calculateMetrics (the analytics dashboard)\<close>

text \<open>
  The state \<open>analytics\<close> as the backend delivers it. Counts are integral JavaScript
  numbers; means and percentages are computed in exact arithmetic (the program computes
  them in binary floating point). A distribution object is the list of its own entries in
  the order of \<open>Object.keys\<close>.
\<close>

record weeklyBucket =
  week :: jsstring
  wcount :: int

record analytics =
  tickets_per_week :: "weeklyBucket list"
  priority_distribution :: "(jsstring \<times> int) list"
  type_distribution :: "(jsstring \<times> int) list"
  avg_resolution_time :: real
  total_tickets :: int
  weekly_average :: real

text \<open>\<^verbatim>\<open>weeks.reduce((sum, w) => sum + (w.count || 0), 0)\<close>\<close>

definition sumCounts :: "weeklyBucket list \<Rightarrow> int" where
  "sumCounts weeks = fold (\<lambda>w sum. sum + (if wcount w \<noteq> 0 then wcount w else 0)) weeks 0"

text \<open>\<^verbatim>\<open>sumCounts / Math.max(weeks.length, 1)\<close>\<close>

definition halfAvg :: "weeklyBucket list \<Rightarrow> real" where
  "halfAvg weeks = real_of_int (sumCounts weeks) / real (max (length weeks) 1)"

text \<open>\<^verbatim>\<open>weeklyData.slice(-4)\<close>\<close>

definition recentWeeksOf :: "weeklyBucket list \<Rightarrow> weeklyBucket list" where
  "recentWeeksOf weeklyData = drop (length weeklyData - 4) weeklyData"

text \<open>The variables \<open>trend\<close> and \<open>trendValue\<close> after the \<open>if\<close> block.\<close>

definition trendOf :: "weeklyBucket list \<Rightarrow> jsstring \<times> real" where
  "trendOf weeklyData =
     (let recentWeeks = recentWeeksOf weeklyData in
      if length recentWeeks \<ge> 2 then
        let firstHalf = take (length recentWeeks div 2) recentWeeks;
            secondHalf = drop (length recentWeeks div 2) recentWeeks;
            firstAvg = halfAvg firstHalf;
            secondAvg = halfAvg secondHalf
        in
          if firstAvg > 0 then
            let trendValue = (secondAvg - firstAvg) / firstAvg * 100 in
            (if trendValue > 10 then js ''up''
             else if trendValue < - 10 then js ''down'' else js ''stable'', trendValue)
          else (js ''stable'', 0)
      else (js ''stable'', 0))"

text \<open>\<open>data[k] || 0\<close> for a distribution object and a name that \<open>Object.prototype\<close>
  does not define.\<close>

definition countIn :: "(jsstring \<times> int) list \<Rightarrow> jsstring \<Rightarrow> int" where
  "countIn data k = (case map_of data k of None \<Rightarrow> 0 | Some v \<Rightarrow> if v \<noteq> 0 then v else 0)"

text \<open>
  \<^verbatim>\<open>Object.keys(typeData).reduce((a, b) => (typeData[a] || 0) > (typeData[b] || 0) ? a : b,
    Object.keys(typeData)[0] || 'N/A')\<close>:
  \<open>reduce\<close> runs from the left over all keys, \<open>a\<close> the accumulator and \<open>b\<close> the key
  visited.
\<close>

definition mostCommonTypeOf :: "(jsstring \<times> int) list \<Rightarrow> jsstring" where
  "mostCommonTypeOf typeData =
     fold (\<lambda>b a. if countIn typeData a > countIn typeData b then a else b)
       (map fst typeData)
       (case map fst typeData of
          [] \<Rightarrow> js ''N/A''
        | k # _ \<Rightarrow> if k \<noteq> [] then k else js ''N/A'')"

record metrics =
  totalTickets :: int
  avgResolutionTime :: real
  highPriorityCount :: int
  mostCommonType :: jsstring
  trend :: jsstring
  trendValue :: real
  weeklyAverage :: real
  noteForAverage :: jsstring

definition calculateMetrics :: "analytics \<Rightarrow> metrics" where
  "calculateMetrics a =
     (let weeklyData = tickets_per_week a;
          totalTickets = (if total_tickets a \<noteq> 0 then total_tickets a else sumCounts weeklyData);
          priorityData = priority_distribution a;
          typeData = type_distribution a;
          weeklyAverage =
            (if weekly_average a \<noteq> 0 then weekly_average a
             else if totalTickets > 0
               then real_of_int totalTickets / real (max (length weeklyData) 1) else 0);
          avgResolutionTime = (if avg_resolution_time a \<noteq> 0 then avg_resolution_time a else 0)
      in
        \<lparr>totalTickets = totalTickets,
         avgResolutionTime = avgResolutionTime,
         highPriorityCount =
           countIn priorityData (js ''High'') + countIn priorityData (js ''Highest'') +
           countIn priorityData (js ''Critical''),
         mostCommonType = mostCommonTypeOf typeData,
         trend = fst (trendOf weeklyData),
         trendValue = \<bar>snd (trendOf weeklyData)\<bar>,
         weeklyAverage = weeklyAverage,
         noteForAverage =
           (if avgResolutionTime = 0 then js '' (No resolved tickets in period)'' else [])\<rparr>)"

text \<open>The trend as the specification words it, for comparison with \<open>trendOf\<close>: the mean
  of a half, the percentage, its classification and the magnitude reported.\<close>

definition meanCount :: "weeklyBucket list \<Rightarrow> real" where
  "meanCount weeks =
     (if weeks = [] then 0 else real_of_int (sum_list (map wcount weeks)) / real (length weeks))"

definition specTrend :: "weeklyBucket list \<Rightarrow> jsstring \<times> real" where
  "specTrend weeklyData =
     (let recent = drop (length weeklyData - 4) weeklyData;
          n = length recent;
          firstMean = meanCount (take (n div 2) recent);
          secondMean = meanCount (drop (n div 2) recent);
          trendPercent = (secondMean - firstMean) / firstMean * 100
      in
        if firstMean = 0 then (js ''stable'', 0)
        else (if trendPercent > 10 then js ''up''
              else if trendPercent < - 10 then js ''down'' else js ''stable'',
              \<bar>trendPercent\<bar>))"

section \<open>loadTickets (project.jsx)\<close>

text \<open>
  The part of the state of \<open>JiraManagerPro\<close> that \<open>loadTickets\<close> writes. The call
  \<open>apiService.getTickets\<close> either resolves to the board or rejects with an error, of which
  only \<open>err.message\<close> is read (\<open>None\<close>: no message). \<open>loadTickets response st\<close> is the state
  once the call has settled.
\<close>

record boardState =
  tickets :: board
  loading :: bool
  error :: jsstring

definition loadTickets :: "jsstring option + board \<Rightarrow> boardState \<Rightarrow> boardState" where
  "loadTickets response st =
     (let st1 = st\<lparr>loading := True, error := []\<rparr> in
      case response of
        Inr data \<Rightarrow> st1\<lparr>tickets := data, loading := False\<rparr>
      | Inl message \<Rightarrow>
          st1\<lparr>error :=
                (case message of
                   None \<Rightarrow> js ''Impossible de charger les tickets''
                 | Some m \<Rightarrow> if m \<noteq> [] then m else js ''Impossible de charger les tickets''),
              tickets := [],
              loading := False\<rparr>)"

text \<open>The error banner is rendered when \<open>error\<close> is truthy; its button runs
  \<open>setError('')\<close>.\<close>

definition bannerShown :: "boardState \<Rightarrow> bool" where
  "bannerShown st = (error st \<noteq> [])"

definition dismissError :: "boardState \<Rightarrow> boardState" where
  "dismissError st = st\<lparr>error := []\<rparr>"

section \<open>The status transition (project.jsx)\<close>

text \<open>A request as \<open>makeRequest\<close> receives it; the body is the object given to
  \<open>JSON.stringify\<close>, as the list of its properties.\<close>

record httpRequest =
  endpoint :: jsstring
  httpMethod :: jsstring
  body :: "(string \<times> jsstring) list"

text \<open>\<open>apiService.transitionTicket\<close>; the comment \<open>None\<close> is \<open>null\<close>.\<close>

definition transitionTicket :: "jsstring \<Rightarrow> jsstring \<Rightarrow> jsstring option \<Rightarrow> httpRequest" where
  "transitionTicket ticketKey transitionName comment =
     \<lparr>endpoint = js ''/tickets/'' @ ticketKey @ js ''/transition'',
      httpMethod = js ''POST'',
      body =
        [(''transition_name'', transitionName)] @
        (case comment of
           None \<Rightarrow> []
         | Some c \<Rightarrow> if c \<noteq> [] \<and> trim c \<noteq> [] then [(''comment'', trim c)] else [])\<rparr>"

text \<open>
  \<open>isTransitionToDone\<close> of \<open>TransitionModal\<close>. \<open>String.prototype.toLowerCase\<close> is the
  host's Unicode case mapping; it is a parameter of the model.
\<close>

definition isTransitionToDone :: "(jsstring \<Rightarrow> jsstring) \<Rightarrow> jsstring \<Rightarrow> bool" where
  "isTransitionToDone toLowerCase transitionName =
     (let normalizedTransition = toLowerCase transitionName in
      js_includes normalizedTransition (js ''done'') \<or>
      js_includes normalizedTransition (js ''termin'' @ [233]) \<or>
      js_includes normalizedTransition (js ''termine'') \<or>
      js_includes normalizedTransition (js ''close'') \<or>
      js_includes normalizedTransition (js ''resolve''))"

text \<open>The state and the properties of \<open>TransitionModal\<close> (\<open>loading\<close> is the property of
  that name, the parent's \<open>actionLoading\<close>).\<close>

record transitionModal =
  ticketKey :: jsstring
  selectedTransition :: jsstring
  comment :: jsstring
  availableTransitions :: "jsstring list"
  loadingTransitions :: bool
  actionLoading :: bool

text \<open>The \<open>disabled\<close> attribute of the submit button.\<close>

definition submitDisabled :: "(jsstring \<Rightarrow> jsstring) \<Rightarrow> transitionModal \<Rightarrow> bool" where
  "submitDisabled toLowerCase m =
     (actionLoading m \<or> selectedTransition m = [] \<or> loadingTransitions m \<or>
      (isTransitionToDone toLowerCase (selectedTransition m) \<and> trim (comment m) = []))"

text \<open>\<open>handleSubmit\<close>, followed through \<open>onSubmit = handleTransitionTicket\<close> to the request
  it sends; \<open>None\<close> when it sends none.\<close>

definition handleSubmit :: "transitionModal \<Rightarrow> httpRequest option" where
  "handleSubmit m =
     (if selectedTransition m \<noteq> []
      then Some (transitionTicket (ticketKey m) (selectedTransition m) (Some (comment m)))
      else None)"

text \<open>The form is submitted through its submit button: a disabled button submits
  nothing, an enabled one runs \<open>handleSubmit\<close>.\<close>

definition submitForm :: "(jsstring \<Rightarrow> jsstring) \<Rightarrow> transitionModal \<Rightarrow> httpRequest option" where
  "submitForm toLowerCase m = (if submitDisabled toLowerCase m then None else handleSubmit m)"

section \<open>Properties of the string operations\<close>

lemmas string_eval = js_def trim_def isWhiteSpace_def isLineTerminator_def

lemma trim_Nil_iff: "trim s = [] \<longleftrightarrow> (\<forall>x\<in>set s. isWhiteSpace x)"
proof
  assume "trim s = []"
  then have "dropWhile isWhiteSpace (rev (dropWhile isWhiteSpace s)) = []"
    by (simp add: trim_def)
  then have "\<forall>x\<in>set (dropWhile isWhiteSpace s). isWhiteSpace x"
    by simp
  then have "dropWhile isWhiteSpace s = []"
    using hd_dropWhile [of isWhiteSpace s] hd_in_set [of "dropWhile isWhiteSpace s"] by blast
  then show "\<forall>x\<in>set s. isWhiteSpace x"
    by simp
next
  assume "\<forall>x\<in>set s. isWhiteSpace x"
  then have *: "dropWhile isWhiteSpace s = []"
    by simp
  show "trim s = []"
    unfolding trim_def * by simp
qed

lemma trim_decomp:
  assumes "trim s \<noteq> []"
  shows "\<exists>l r. s = l @ trim s @ r \<and> (\<forall>x\<in>set l. isWhiteSpace x) \<and> (\<forall>x\<in>set r. isWhiteSpace x) \<and>
           \<not> isWhiteSpace (hd (trim s)) \<and> \<not> isWhiteSpace (last (trim s))"
proof -
  define d where "d = dropWhile isWhiteSpace s"
  define l where "l = takeWhile isWhiteSpace s"
  define r where "r = rev (takeWhile isWhiteSpace (rev d))"
  have t: "trim s = rev (dropWhile isWhiteSpace (rev d))"
    by (simp add: trim_def d_def)
  have s: "s = l @ d"
    by (simp add: l_def d_def)
  have "d = rev (takeWhile isWhiteSpace (rev d) @ dropWhile isWhiteSpace (rev d))"
    by (simp only: takeWhile_dropWhile_id rev_rev_ident)
  also have "\<dots> = rev (dropWhile isWhiteSpace (rev d)) @ rev (takeWhile isWhiteSpace (rev d))"
    by (rule rev_append)
  finally have d: "d = trim s @ r"
    unfolding t r_def .
  have l_ws: "\<forall>x\<in>set l. isWhiteSpace x"
    by (auto simp: l_def dest: set_takeWhileD)
  have r_ws: "\<forall>x\<in>set r. isWhiteSpace x"
    by (auto simp: r_def dest: set_takeWhileD)
  have "d \<noteq> []"
    using assms d by auto
  then have "\<not> isWhiteSpace (hd d)"
    unfolding d_def by (rule hd_dropWhile)
  moreover have "hd d = hd (trim s)"
    using assms d by (metis hd_append2)
  ultimately have h: "\<not> isWhiteSpace (hd (trim s))"
    by simp
  have "dropWhile isWhiteSpace (rev d) \<noteq> []"
    using assms t by auto
  then have "\<not> isWhiteSpace (hd (dropWhile isWhiteSpace (rev d)))"
    by (rule hd_dropWhile)
  moreover have "last (trim s) = hd (dropWhile isWhiteSpace (rev d))"
    unfolding t by (simp add: last_rev)
  ultimately have e: "\<not> isWhiteSpace (last (trim s))"
    by simp
  from s d l_ws r_ws h e show ?thesis
    by blast
qed

lemma trim_append_space:
  assumes "\<forall>x\<in>set w. isWhiteSpace x"
  shows "trim (x @ w) = trim x"
proof (cases "\<forall>c\<in>set x. isWhiteSpace c")
  case True
  then have "dropWhile isWhiteSpace (x @ w) = []" and "dropWhile isWhiteSpace x = []"
    using assms by auto
  then show ?thesis
    by (simp only: trim_def)
next
  case False
  then have "dropWhile isWhiteSpace (x @ w) = dropWhile isWhiteSpace x @ w"
    by (auto simp: dropWhile_append1)
  moreover have "dropWhile isWhiteSpace (rev w @ y) = dropWhile isWhiteSpace y" for y
    using assms by (intro dropWhile_append2) simp
  ultimately show ?thesis
    by (simp add: trim_def)
qed

lemma splitFrom_no_separator:
  "\<not> js_includes s sep \<Longrightarrow> splitFrom sep cur s = [cur @ s]"
  by (induction s arbitrary: cur) auto

lemma splitFrom_not_Nil: "splitFrom sep cur s \<noteq> []"
  by (induction sep cur s rule: splitFrom.induct) auto

lemma splitFrom_separator:
  "sep \<noteq> [] \<Longrightarrow> js_includes s sep \<Longrightarrow> 2 \<le> length (splitFrom sep cur s)"
proof (induction sep cur s rule: splitFrom.induct)
  case (1 sep cur)
  then show ?case by simp
next
  case (2 sep cur c cs)
  show ?case
  proof (cases "prefix sep (c # cs)")
    case True
    then show ?thesis
      using "2.prems"(1) splitFrom_not_Nil [of sep "[]" "drop (length sep) (c # cs)"]
      by (cases "splitFrom sep [] (drop (length sep) (c # cs))") auto
  next
    case False
    then show ?thesis
      using 2 by auto
  qed
qed

lemma hd_splitFrom_colon:
  "hd (splitFrom [58] cur s) = cur @ takeWhile (\<lambda>c. c \<noteq> 58) s"
  by (induction s arbitrary: cur) auto

lemma splitFrom_first:
  "\<not> js_includes k [58, 32] \<Longrightarrow>
   splitFrom [58, 32] cur (k @ 58 # 32 # r) = (cur @ k) # splitFrom [58, 32] [] r"
proof (induction k arbitrary: cur)
  case Nil
  then show ?case by simp
next
  case (Cons c cs)
  have "\<not> prefix [58, 32] (c # cs @ 58 # 32 # r)"
    using Cons.prems by (cases cs) auto
  then show ?case
    using Cons by simp
qed

section \<open>Properties of parseTicketInfo\<close>

lemmas parse_eval = parseTicketInfo_def js_split_def summaryOf_def summaryMatch_def assigneeOf_def
  NonAssigne_def Let_def string_eval

subsection \<open>Bracket groups and summary\<close>

lemma bracketGroups_skip: "91 \<notin> set u \<Longrightarrow> bracketGroups (u @ v) = bracketGroups v"
  by (induction u) auto

lemma bracketGroups_group:
  assumes "g \<noteq> []" and "93 \<notin> set g"
  shows "bracketGroups (91 # g @ 93 # v) = g # bracketGroups v"
proof -
  have "takeWhile (\<lambda>x. x \<noteq> 93) (g @ 93 # v) = g"
    using assms(2) by (induction g) auto
  moreover have "dropWhile (\<lambda>x. x \<noteq> 93) (g @ 93 # v) = 93 # v"
    using assms(2) by (induction g) auto
  ultimately show ?thesis
    using assms(1) by simp
qed

lemma bracketGroups_three:
  assumes "91 \<notin> set S" and "A \<noteq> []" and "93 \<notin> set A" and "T \<noteq> []" and "93 \<notin> set T"
    and "P \<noteq> []" and "93 \<notin> set P"
  shows "bracketGroups (S @ js '' ['' @ A @ js ''] ['' @ T @ js ''] ['' @ P @ js '']'') = [A, T, P]"
proof -
  have "bracketGroups (S @ js '' ['' @ A @ js ''] ['' @ T @ js ''] ['' @ P @ js '']'') =
        bracketGroups ((S @ [32]) @ 91 # A @ 93 # ([32] @ 91 # T @ 93 # ([32] @ 91 # P @ 93 # [])))"
    by (simp add: js_def)
  also have "\<dots> = bracketGroups (91 # A @ 93 # ([32] @ 91 # T @ 93 # ([32] @ 91 # P @ 93 # [])))"
    using assms(1) by (intro bracketGroups_skip) simp
  also have "\<dots> = A # bracketGroups ([32] @ 91 # T @ 93 # ([32] @ 91 # P @ 93 # []))"
    using assms(2,3) by (rule bracketGroups_group)
  also have "bracketGroups ([32] @ 91 # T @ 93 # ([32] @ 91 # P @ 93 # [])) =
      bracketGroups (91 # T @ 93 # ([32] @ 91 # P @ 93 # []))"
    by (intro bracketGroups_skip) simp
  also have "\<dots> = T # bracketGroups ([32] @ 91 # P @ 93 # [])"
    using assms(4,5) by (rule bracketGroups_group)
  also have "bracketGroups ([32] @ 91 # P @ 93 # []) = bracketGroups (91 # P @ 93 # [])"
    by (intro bracketGroups_skip) simp
  also have "\<dots> = P # bracketGroups []"
    using assms(6,7) by (rule bracketGroups_group)
  finally show ?thesis
    by simp
qed

lemma summaryFrom_plain:
  assumes "91 \<notin> set u" and "\<forall>c\<in>set u. \<not> isLineTerminator c"
  shows "summaryFrom pre (u @ 32 # 91 # X) = Some (pre @ rev (dropWhile isWhiteSpace (rev u)))"
  using assms
proof (induction u arbitrary: pre)
  case Nil
  then show ?case by (simp add: isWhiteSpace_def isLineTerminator_def)
next
  case (Cons c cs)
  show ?case
  proof (cases "\<forall>x\<in>set (c # cs). isWhiteSpace x")
    case True
    then have "dropWhile isWhiteSpace ((c # cs) @ 32 # 91 # X) = 91 # X"
      by (simp only: dropWhile_append2) (simp add: isWhiteSpace_def isLineTerminator_def)
    moreover have "dropWhile isWhiteSpace (rev (c # cs)) = []"
      using True by simp
    ultimately show ?thesis
      by simp
  next
    case False
    then obtain x where "x \<in> set (c # cs)" and "\<not> isWhiteSpace x"
      by blast
    then have d: "dropWhile isWhiteSpace ((c # cs) @ 32 # 91 # X) =
        dropWhile isWhiteSpace (c # cs) @ 32 # 91 # X"
      by (rule dropWhile_append1)
    have ne: "dropWhile isWhiteSpace (c # cs) \<noteq> []"
      using False by (simp only: dropWhile_eq_Nil_conv) simp
    then have "hd (dropWhile isWhiteSpace (c # cs)) \<in> set (c # cs)"
      by (meson hd_in_set set_dropWhileD)
    then have "hd (dropWhile isWhiteSpace (c # cs)) \<noteq> 91"
      using Cons.prems(1) by metis
    then have no: "\<not> (case dropWhile isWhiteSpace (c # cs @ 32 # 91 # X) of
        [] \<Rightarrow> False | d # _ \<Rightarrow> d = 91)"
      using d ne by (cases "dropWhile isWhiteSpace (c # cs)") auto
    have c: "\<not> isLineTerminator c"
      using Cons.prems(2) by simp
    have ih: "summaryFrom (pre @ [c]) (cs @ 32 # 91 # X) =
        Some ((pre @ [c]) @ rev (dropWhile isWhiteSpace (rev cs)))"
      using Cons by simp
    have "rev (dropWhile isWhiteSpace (rev (c # cs))) = c # rev (dropWhile isWhiteSpace (rev cs))"
    proof (cases "\<forall>x\<in>set cs. isWhiteSpace x")
      case True
      then have nc: "\<not> isWhiteSpace c"
        using False by simp
      have "dropWhile isWhiteSpace (rev cs @ [c]) = dropWhile isWhiteSpace [c]"
        using True by (intro dropWhile_append2) simp
      moreover have "dropWhile isWhiteSpace (rev cs) = []"
        using True by simp
      ultimately show ?thesis
        using nc by simp
    next
      case False
      then obtain x where "x \<in> set (rev cs)" and "\<not> isWhiteSpace x"
        by auto
      then have "dropWhile isWhiteSpace (rev cs @ [c]) = dropWhile isWhiteSpace (rev cs) @ [c]"
        by (rule dropWhile_append1)
      then show ?thesis
        by simp
    qed
    then show ?thesis
      using no c ih by (simp del: dropWhile.simps)
  qed
qed

lemma summaryOf_plain:
  assumes "91 \<notin> set S" and "\<forall>c\<in>set S. \<not> isLineTerminator c"
  shows "summaryOf (S @ 32 # 91 # X) = trim S"
proof (cases S)
  case Nil
  then show ?thesis
    by (simp add: summaryOf_def summaryMatch_def string_eval)
next
  case (Cons c cs)
  have "summaryFrom [c] (cs @ 32 # 91 # X) = Some ([c] @ rev (dropWhile isWhiteSpace (rev cs)))"
    using assms Cons by (intro summaryFrom_plain) auto
  then have "summaryOf (S @ 32 # 91 # X) = trim (c # rev (dropWhile isWhiteSpace (rev cs)))"
    using assms Cons by (simp add: summaryOf_def summaryMatch_def)
  also have "\<dots> = trim ((c # rev (dropWhile isWhiteSpace (rev cs))) @ rev (takeWhile isWhiteSpace (rev cs)))"
    by (rule trim_append_space [symmetric]) (auto dest: set_takeWhileD)
  also have "(c # rev (dropWhile isWhiteSpace (rev cs))) @ rev (takeWhile isWhiteSpace (rev cs)) =
      c # rev (takeWhile isWhiteSpace (rev cs) @ dropWhile isWhiteSpace (rev cs))"
    by (simp only: rev_append append_Cons)
  also have "\<dots> = S"
    using Cons by simp
  finally show ?thesis .
qed

subsection \<open>Ticket strings with a single separator\<close>

text \<open>
  What \<open>parseTicketInfo\<close> does return for a ticket string \<open>K: S [A] [T] [P]\<close>: the record
  of its parts, key and summary trimmed, provided that \<open>: \<close> occurs neither in the key nor
  anywhere after the first separator, that the summary has no \<open>[\<close> and no line terminator,
  and that assignee, type and priority are not empty and have no \<open>]\<close>.
\<close>

lemma parseTicketInfo_encodeTicket:
  assumes K: "\<not> js_includes K (js '': '')"
    and R: "\<not> js_includes (S @ js '' ['' @ A @ js ''] ['' @ T @ js ''] ['' @ P @ js '']'') (js '': '')"
    and S: "91 \<notin> set S" "\<forall>c\<in>set S. \<not> isLineTerminator c"
    and A: "A \<noteq> []" "93 \<notin> set A" and T: "T \<noteq> []" "93 \<notin> set T" and P: "P \<noteq> []" "93 \<notin> set P"
  shows "parseTicketInfo (encodeTicket K S A T P) =
           Some \<lparr>key = trim K, summary = trim S, assignee = assigneeOf A, issueType = T,
                 priority = P\<rparr>"
proof -
  define rest where "rest = S @ js '' ['' @ A @ js ''] ['' @ T @ js ''] ['' @ P @ js '']''"
  have e: "encodeTicket K S A T P = K @ 58 # 32 # rest"
    by (simp add: encodeTicket_def rest_def js_def)
  have "splitFrom [58, 32] [] (K @ 58 # 32 # rest) = ([] @ K) # splitFrom [58, 32] [] rest"
    using K by (intro splitFrom_first) (simp add: js_def)
  moreover have "splitFrom [58, 32] [] rest = [[] @ rest]"
    using R by (intro splitFrom_no_separator) (simp add: rest_def js_def)
  ultimately have parts: "js_split (js '': '') (encodeTicket K S A T P) = [K, rest]"
    by (simp add: js_split_def e js_def)
  have groups: "bracketGroups rest = [A, T, P]"
    unfolding rest_def using S(1) A T P by (rule bracketGroups_three)
  have "rest = S @ 32 # 91 # (A @ js ''] ['' @ T @ js ''] ['' @ P @ js '']'')"
    by (simp add: rest_def js_def)
  then have summ: "summaryOf rest = trim S"
    using summaryOf_plain [OF S] by simp
  show ?thesis
    using P(1) by (simp add: parseTicketInfo_def parts groups summ)
qed

text \<open>
  Claim C1 fails on the code at a summary that contains the separator. The ticket string
  \<open>K-1: Fix: bug [Bob] [Bug] [High]\<close> encodes the key \<open>K-1\<close>, the summary \<open>Fix: bug\<close>, the
  assignee \<open>Bob\<close>, the type \<open>Bug\<close> and the priority \<open>High\<close>; \<open>split(': ')\<close> cuts it at both
  separators, \<open>parts[1]\<close> is \<open>Fix\<close> alone, no bracket group is found in it and
  \<open>parseTicketInfo\<close> returns \<open>null\<close> instead of the record.
\<close>

theorem parseTicketInfo_separator_in_summary:
  "encodeTicket (js ''K-1'') (js ''Fix: bug'') (js ''Bob'') (js ''Bug'') (js ''High'') =
     js ''K-1: Fix: bug [Bob] [Bug] [High]'' \<and>
   js_split (js '': '') (js ''K-1: Fix: bug [Bob] [Bug] [High]'') =
     [js ''K-1'', js ''Fix'', js ''bug [Bob] [Bug] [High]''] \<and>
   parseTicketInfo (js ''K-1: Fix: bug [Bob] [Bug] [High]'') = None"
  by (simp add: encodeTicket_def parse_eval)

text \<open>
  For the same ticket string the fallback of \<open>TicketCard\<close> keeps what follows the
  key: it shows the key \<open>K-1\<close>, the summary \<open>Fix: bug\<close> (after a space) and the assignee
  \<open>Bob\<close>.
\<close>

lemma fallback_separator_in_summary:
  "fallbackKey (js ''K-1: Fix: bug [Bob] [Bug] [High]'') = js ''K-1'' \<and>
   fallbackSummary (js ''K-1: Fix: bug [Bob] [Bug] [High]'') = js '' Fix: bug'' \<and>
   fallbackAssignee (js ''K-1: Fix: bug [Bob] [Bug] [High]'') = js ''Bob''"
proof -
  have k: "fallbackKey (js ''K-1: Fix: bug [Bob] [Bug] [High]'') = js ''K-1''"
    by (simp add: fallbackKey_def js_split_def string_eval)
  have r: "fallbackRest (js ''K-1: Fix: bug [Bob] [Bug] [High]'') = js '' Fix: bug [Bob] [Bug] [High]''"
    unfolding fallbackRest_def k by (simp add: stripColon_def string_eval)
  show ?thesis
    unfolding fallbackSummary_def fallbackAssignee_def r k
    by (simp add: js_split_def string_eval)
qed

subsection \<open>Two bracket groups\<close>

text \<open>
  A ticket string \<open>K: R\<close> in which \<open>: \<close> occurs neither in \<open>K\<close> nor in the remainder \<open>R\<close>,
  and whose remainder holds exactly two bracket groups: the result is a record with the
  priority \<open>Medium\<close>, the first group as assignee (\<open>Unassigned\<close> becoming
  \<open>Non assign\<eacute>\<close>, any other name kept) and the second group as issue type.
\<close>

lemma parseTicketInfo_two_groups:
  assumes K: "\<not> js_includes K (js '': '')" and R: "\<not> js_includes R (js '': '')"
    and groups: "bracketGroups R = [a, t]"
  shows "parseTicketInfo (K @ js '': '' @ R) =
           Some \<lparr>key = trim K, summary = summaryOf R,
                 assignee = (if a = js ''Unassigned'' then NonAssigne else a),
                 issueType = t, priority = js ''Medium''\<rparr>"
proof -
  have "splitFrom [58, 32] [] (K @ 58 # 32 # R) = ([] @ K) # splitFrom [58, 32] [] R"
    using K by (intro splitFrom_first) (simp add: js_def)
  moreover have "splitFrom [58, 32] [] R = [[] @ R]"
    using R by (intro splitFrom_no_separator) (simp add: js_def)
  ultimately have "js_split (js '': '') (K @ js '': '' @ R) = [K, R]"
    by (simp add: js_split_def js_def)
  then show ?thesis
    using groups by (simp add: parseTicketInfo_def assigneeOf_def)
qed

lemma parseTicketInfo_two_groups_examples:
  "parseTicketInfo (js ''K-2: Docs [Unassigned] [Task]'') =
     Some \<lparr>key = js ''K-2'', summary = js ''Docs'', assignee = NonAssigne,
           issueType = js ''Task'', priority = js ''Medium''\<rparr> \<and>
   parseTicketInfo (js ''K-4: Login page [Bob] [Story]'') =
     Some \<lparr>key = js ''K-4'', summary = js ''Login page'', assignee = js ''Bob'',
           issueType = js ''Story'', priority = js ''Medium''\<rparr>"
proof -
  have 1: "js ''K-2: Docs [Unassigned] [Task]'' = js ''K-2'' @ js '': '' @ js ''Docs [Unassigned] [Task]''"
    and 2: "js ''K-4: Login page [Bob] [Story]'' = js ''K-4'' @ js '': '' @ js ''Login page [Bob] [Story]''"
    by (simp_all add: js_def)
  have a: "parseTicketInfo (js ''K-2'' @ js '': '' @ js ''Docs [Unassigned] [Task]'') =
      Some \<lparr>key = trim (js ''K-2''), summary = summaryOf (js ''Docs [Unassigned] [Task]''),
            assignee = (if js ''Unassigned'' = js ''Unassigned'' then NonAssigne else js ''Unassigned''),
            issueType = js ''Task'', priority = js ''Medium''\<rparr>"
    by (rule parseTicketInfo_two_groups) (simp_all add: js_def)
  have b: "parseTicketInfo (js ''K-4'' @ js '': '' @ js ''Login page [Bob] [Story]'') =
      Some \<lparr>key = trim (js ''K-4''), summary = summaryOf (js ''Login page [Bob] [Story]''),
            assignee = (if js ''Bob'' = js ''Unassigned'' then NonAssigne else js ''Bob''),
            issueType = js ''Story'', priority = js ''Medium''\<rparr>"
    by (rule parseTicketInfo_two_groups) (simp_all add: js_def)
  show ?thesis
    unfolding 1 2 a b by (simp add: summaryOf_def summaryMatch_def string_eval)
qed

text \<open>
  Claim C6 fails on the code at a remainder that contains the separator. In
  \<open>K-3: Fix: bug [Bob] [Bug]\<close> the remainder after the first \<open>: \<close> is
  \<open>Fix: bug [Bob] [Bug]\<close>, with exactly the two bracket groups \<open>Bob\<close> and \<open>Bug\<close>; but
  \<open>split(': ')\<close> cuts the string at both separators, \<open>parts[1]\<close> is \<open>Fix\<close> alone, and
  \<open>parseTicketInfo\<close> returns \<open>null\<close> instead of a record with the priority \<open>Medium\<close>.
\<close>

theorem parseTicketInfo_two_groups_separator:
  "js ''K-3: Fix: bug [Bob] [Bug]'' = js ''K-3'' @ js '': '' @ js ''Fix: bug [Bob] [Bug]'' \<and>
   \<not> js_includes (js ''K-3'') (js '': '') \<and>
   bracketGroups (js ''Fix: bug [Bob] [Bug]'') = [js ''Bob'', js ''Bug''] \<and>
   js_split (js '': '') (js ''K-3: Fix: bug [Bob] [Bug]'') =
     [js ''K-3'', js ''Fix'', js ''bug [Bob] [Bug]''] \<and>
   parseTicketInfo (js ''K-3: Fix: bug [Bob] [Bug]'') = None"
  by (simp add: parse_eval)

subsection \<open>Input without separator\<close>

lemma parseTicketInfo_no_separator:
  assumes "\<not> js_includes s (js '': '')"
  shows "parseTicketInfo s = None"
  using splitFrom_no_separator [OF assms, of "[]"]
  by (simp add: parseTicketInfo_def js_split_def js_def)

text \<open>
  Claim C5, as the code has it. For every input string \<open>parseTicketInfo\<close> returns a record
  or \<open>null\<close>. For every input without the separator \<open>: \<close> it returns \<open>null\<close>, and the key of
  the fallback is the trimmed text before the first colon (the whole input when it has no
  colon): it is not empty exactly when that text holds a code unit that is not white
  space.
\<close>

theorem parseTicketInfo_total:
  "(parseTicketInfo s = None \<or> (\<exists>info. parseTicketInfo s = Some info)) \<and>
   (\<not> js_includes s (js '': '') \<longrightarrow>
      parseTicketInfo s = None \<and>
      fallbackKey s = trim (takeWhile (\<lambda>c. c \<noteq> 58) s) \<and>
      (fallbackKey s \<noteq> []) = (\<exists>c\<in>set (takeWhile (\<lambda>c. c \<noteq> 58) s). \<not> isWhiteSpace c))"
proof -
  have k: "fallbackKey s = trim (takeWhile (\<lambda>c. c \<noteq> 58) s)"
    using hd_splitFrom_colon [of "[]" s] by (simp add: fallbackKey_def js_split_def js_def)
  show ?thesis
    using parseTicketInfo_no_separator [of s] trim_Nil_iff [of "takeWhile (\<lambda>c. c \<noteq> 58) s"]
    unfolding k by auto
qed

theorem parseTicketInfo_total_witness:
  "\<not> js_includes (js ''K-9 broken card'') (js '': '') \<and>
   parseTicketInfo (js ''K-9 broken card'') = None \<and>
   fallbackKey (js ''K-9 broken card'') = js ''K-9 broken card''"
  using parseTicketInfo_total [of "js ''K-9 broken card''"]
  by (simp add: string_eval)

text \<open>
  Claim C5 as stated fails: \<open>:orphan [Bob]\<close> and the empty string have no separator
  \<open>: \<close>, \<open>parseTicketInfo\<close> returns \<open>null\<close> for them, and the key of the fallback is
  empty.
\<close>

theorem fallbackKey_empty_counterexample:
  "\<not> js_includes (js '':orphan [Bob]'') (js '': '') \<and>
   parseTicketInfo (js '':orphan [Bob]'') = None \<and>
   fallbackKey (js '':orphan [Bob]'') = [] \<and>
   \<not> js_includes [] (js '': '') \<and> parseTicketInfo [] = None \<and> fallbackKey [] = []"
  by (simp add: parse_eval fallbackKey_def)

section \<open>Properties of the filter facets\<close>








section \<open>Properties of the status transition\<close>

text \<open>
  Claim C10. For every call \<open>transitionTicket(key, name, comment)\<close>: the request is a
  \<open>POST\<close> to \<open>/tickets/{key}/transition\<close>; when the comment is \<open>null\<close>, empty or made of
  white space only, the body has the single field \<open>transition_name\<close>; otherwise it has the
  two fields \<open>transition_name\<close> and \<open>comment\<close>, the latter being the comment without its
  leading and trailing white space (the comment is \<open>l @ trim c @ r\<close> with \<open>l\<close> and \<open>r\<close> white
  space and \<open>trim c\<close> beginning and ending with a code unit that is not white space).
\<close>

theorem transitionTicket_body:
  "endpoint (transitionTicket k name cmt) = js ''/tickets/'' @ k @ js ''/transition'' \<and>
   httpMethod (transitionTicket k name cmt) = js ''POST'' \<and>
   (cmt = None \<longrightarrow> body (transitionTicket k name cmt) = [(''transition_name'', name)]) \<and>
   (\<forall>c. cmt = Some c \<and> (\<forall>x\<in>set c. isWhiteSpace x) \<longrightarrow>
        body (transitionTicket k name cmt) = [(''transition_name'', name)]) \<and>
   (\<forall>c. cmt = Some c \<and> (\<exists>x\<in>set c. \<not> isWhiteSpace x) \<longrightarrow>
        body (transitionTicket k name cmt) =
          [(''transition_name'', name), (''comment'', trim c)] \<and>
        (\<exists>l r. c = l @ trim c @ r \<and> (\<forall>x\<in>set l. isWhiteSpace x) \<and>
           (\<forall>x\<in>set r. isWhiteSpace x) \<and>
           \<not> isWhiteSpace (hd (trim c)) \<and> \<not> isWhiteSpace (last (trim c))))"
proof -
  have blank: "trim c = []" if "\<forall>x\<in>set c. isWhiteSpace x" for c
    using that by (simp add: trim_Nil_iff)
  have full: "c \<noteq> [] \<and> trim c \<noteq> []" if "\<exists>x\<in>set c. \<not> isWhiteSpace x" for c
    using that trim_Nil_iff [of c] by auto
  have "body (transitionTicket k name (Some c)) =
          [(''transition_name'', name), (''comment'', trim c)] \<and>
        (\<exists>l r. c = l @ trim c @ r \<and> (\<forall>x\<in>set l. isWhiteSpace x) \<and>
           (\<forall>x\<in>set r. isWhiteSpace x) \<and>
           \<not> isWhiteSpace (hd (trim c)) \<and> \<not> isWhiteSpace (last (trim c)))"
    if "\<exists>x\<in>set c. \<not> isWhiteSpace x" for c
    using full [OF that] trim_decomp [of c] by (simp add: transitionTicket_def)
  then show ?thesis
    using blank by (auto simp: transitionTicket_def)
qed

theorem transitionTicket_body_witness:
  "body (transitionTicket (js ''K-1'') (js ''Done'') None) = [(''transition_name'', js ''Done'')] \<and>
   body (transitionTicket (js ''K-1'') (js ''Done'') (Some [])) = [(''transition_name'', js ''Done'')] \<and>
   body (transitionTicket (js ''K-1'') (js ''Done'') (Some (js '' ''))) =
     [(''transition_name'', js ''Done'')] \<and>
   body (transitionTicket (js ''K-1'') (js ''Done'') (Some (js '' fixed in 2.1  ''))) =
     [(''transition_name'', js ''Done''), (''comment'', js ''fixed in 2.1'')]"
  using transitionTicket_body [of "js ''K-1''" "js ''Done''" None]
    transitionTicket_body [of "js ''K-1''" "js ''Done''" "Some []"]
    transitionTicket_body [of "js ''K-1''" "js ''Done''" "Some (js '' '')"]
    transitionTicket_body [of "js ''K-1''" "js ''Done''" "Some (js '' fixed in 2.1  '')"]
  by (simp add: string_eval)

text \<open>
  Claim C9. Whenever the transition form sends a request, a transition name is selected
  and the request is the one \<open>transitionTicket\<close> builds for it; when the selected name
  requires a closure comment (\<open>isTransitionToDone\<close>), the trimmed comment is not empty and
  the body carries it. A selected transition that does not require closure is submitted
  (no action or load being in flight) whatever the comment: without \<open>comment\<close> field when
  the comment is blank, with it otherwise. This holds for every case mapping
  \<open>toLowerCase\<close>.
\<close>

theorem submitForm_gate:
  "(\<forall>req. submitForm toLowerCase m = Some req \<longrightarrow>
      selectedTransition m \<noteq> [] \<and>
      req = transitionTicket (ticketKey m) (selectedTransition m) (Some (comment m)) \<and>
      hd (body req) = (''transition_name'', selectedTransition m) \<and>
      (isTransitionToDone toLowerCase (selectedTransition m) \<longrightarrow>
         trim (comment m) \<noteq> [] \<and>
         body req = [(''transition_name'', selectedTransition m), (''comment'', trim (comment m))])) \<and>
   (selectedTransition m \<noteq> [] \<and> \<not> actionLoading m \<and> \<not> loadingTransitions m \<and>
    \<not> isTransitionToDone toLowerCase (selectedTransition m) \<longrightarrow>
      submitForm toLowerCase m =
        Some (transitionTicket (ticketKey m) (selectedTransition m) (Some (comment m))) \<and>
      body (transitionTicket (ticketKey m) (selectedTransition m) (Some (comment m))) =
        (if trim (comment m) = [] then [(''transition_name'', selectedTransition m)]
         else [(''transition_name'', selectedTransition m), (''comment'', trim (comment m))]))"
proof -
  have "trim [] = []"
    by (simp add: trim_def)
  then have ne: "c \<noteq> []" if "trim c \<noteq> []" for c
    using that by auto
  show ?thesis
    using ne by (auto simp: submitForm_def submitDisabled_def handleSubmit_def transitionTicket_def)
qed

theorem submitForm_gate_witness:
  "isTransitionToDone toLowerCaseLatin1 (js ''Mark as Done'') \<and>
   submitForm toLowerCaseLatin1
     \<lparr>ticketKey = js ''K-1'', selectedTransition = js ''Mark as Done'', comment = js '' shipped '',
      availableTransitions = [js ''Mark as Done'', js ''Reopen''], loadingTransitions = False,
      actionLoading = False\<rparr> =
     Some \<lparr>endpoint = js ''/tickets/K-1/transition'', httpMethod = js ''POST'',
           body = [(''transition_name'', js ''Mark as Done''), (''comment'', js ''shipped'')]\<rparr> \<and>
   \<not> isTransitionToDone toLowerCaseLatin1 (js ''Reopen'') \<and>
   submitForm toLowerCaseLatin1
     \<lparr>ticketKey = js ''K-1'', selectedTransition = js ''Reopen'', comment = [],
      availableTransitions = [js ''Mark as Done'', js ''Reopen''], loadingTransitions = False,
      actionLoading = False\<rparr> =
     Some \<lparr>endpoint = js ''/tickets/K-1/transition'', httpMethod = js ''POST'',
           body = [(''transition_name'', js ''Reopen'')]\<rparr> \<and>
   submitForm toLowerCaseLatin1
     \<lparr>ticketKey = js ''K-1'', selectedTransition = js ''Reopen'', comment = js ''again'',
      availableTransitions = [js ''Mark as Done'', js ''Reopen''], loadingTransitions = False,
      actionLoading = False\<rparr> =
     Some \<lparr>endpoint = js ''/tickets/K-1/transition'', httpMethod = js ''POST'',
           body = [(''transition_name'', js ''Reopen''), (''comment'', js ''again'')]\<rparr>"
  using submitForm_gate [of toLowerCaseLatin1
      "\<lparr>ticketKey = js ''K-1'', selectedTransition = js ''Mark as Done'', comment = js '' shipped '',
        availableTransitions = [js ''Mark as Done'', js ''Reopen''], loadingTransitions = False,
        actionLoading = False\<rparr>"]
    submitForm_gate [of toLowerCaseLatin1
      "\<lparr>ticketKey = js ''K-1'', selectedTransition = js ''Reopen'', comment = [],
        availableTransitions = [js ''Mark as Done'', js ''Reopen''], loadingTransitions = False,
        actionLoading = False\<rparr>"]
    submitForm_gate [of toLowerCaseLatin1
      "\<lparr>ticketKey = js ''K-1'', selectedTransition = js ''Reopen'', comment = js ''again'',
        availableTransitions = [js ''Mark as Done'', js ''Reopen''], loadingTransitions = False,
        actionLoading = False\<rparr>"]
  by (simp add: string_eval isTransitionToDone_def toLowerCaseLatin1_def submitForm_def
      submitDisabled_def handleSubmit_def transitionTicket_def)

section \<open>Properties of loadTickets\<close>

text \<open>
  Claim C2, as the code has it. When the request of a board refresh fails, \<open>loadTickets\<close>
  empties the ticket collection (\<open>setTickets({})\<close>), ends the loading state and sets the
  error message (the message of the error, or the default text when it has none); the
  message is shown in a banner that \<open>dismissError\<close> removes, and the board stays empty.
\<close>

theorem loadTickets_error_resets_board:
  "tickets (loadTickets (Inl message) st) = [] \<and>
   loading (loadTickets (Inl message) st) = False \<and>
   error (loadTickets (Inl message) st) =
     (case message of
        None \<Rightarrow> js ''Impossible de charger les tickets''
      | Some m \<Rightarrow> if m \<noteq> [] then m else js ''Impossible de charger les tickets'') \<and>
   bannerShown (loadTickets (Inl message) st) \<and>
   \<not> bannerShown (dismissError (loadTickets (Inl message) st)) \<and>
   tickets (dismissError (loadTickets (Inl message) st)) = []"
  by (simp add: loadTickets_def bannerShown_def dismissError_def js_def split: option.split)

theorem loadTickets_error_resets_board_witness:
  "tickets (loadTickets (Inl (Some (js ''HTTP error! status: 500'')))
      \<lparr>tickets = [(js ''Done'', [js ''K-1: Fix bug [Bob] [Bug] [High]''])],
       loading = False, error = []\<rparr>) = [] \<and>
   error (loadTickets (Inl (Some (js ''HTTP error! status: 500'')))
      \<lparr>tickets = [(js ''Done'', [js ''K-1: Fix bug [Bob] [Bug] [High]''])],
       loading = False, error = []\<rparr>) = js ''HTTP error! status: 500''"
  using loadTickets_error_resets_board [of "Some (js ''HTTP error! status: 500'')"
      "\<lparr>tickets = [(js ''Done'', [js ''K-1: Fix bug [Bob] [Bug] [High]''])],
        loading = False, error = []\<rparr>"]
  by (simp add: js_def)

text \<open>
  Claim C2 as stated fails: after a failed refresh the ticket collection differs from the
  one loaded before.
\<close>

theorem loadTickets_error_keeps_board_counterexample:
  "tickets (loadTickets (Inl (Some (js ''HTTP error! status: 500'')))
      \<lparr>tickets = [(js ''Done'', [js ''K-1: Fix bug [Bob] [Bug] [High]''])],
       loading = False, error = []\<rparr>)
   \<noteq> tickets \<lparr>tickets = [(js ''Done'', [js ''K-1: Fix bug [Bob] [Bug] [High]''])],
       loading = False, error = []\<rparr>"
  by (simp add: loadTickets_def)

section \<open>Properties of getOrderedStatuses\<close>

subsection \<open>Sorting with a comparator\<close>

lemma mset_insertBy: "mset (insertBy comparefn x ys) = add_mset x (mset ys)"
  by (induction ys) auto

lemma mset_stableSort: "mset (stableSort comparefn xs) = mset xs"
  by (induction xs) (auto simp: stableSort_def mset_insertBy)

lemma set_insertBy: "set (insertBy comparefn x ys) = insert x (set ys)"
  using mset_insertBy [of comparefn x ys, THEN arg_cong, of set_mset] by simp

lemma set_stableSort: "set (stableSort comparefn xs) = set xs"
  using mset_stableSort [of comparefn xs, THEN arg_cong, of set_mset] by simp

lemma consistentOn_value:
  assumes "consistentOn comparefn xs" and "a \<in> set xs" and "b \<in> set xs"
  shows "comparefn a b = Some (sortCompare comparefn a b)"
proof -
  have "comparefn a b \<noteq> None"
    using assms unfolding consistentOn_def by blast
  then show ?thesis
    by (auto simp: sortCompare_def)
qed

lemma consistentOn_refl:
  assumes "consistentOn comparefn xs" and "a \<in> set xs"
  shows "sortCompare comparefn a a = 0"
proof -
  have "comparefn a a = Some 0"
    using assms unfolding consistentOn_def by blast
  then show ?thesis
    by (simp add: sortCompare_def)
qed

lemma consistentOn_sym:
  assumes "consistentOn comparefn xs" and "a \<in> set xs" and "b \<in> set xs"
    and "sortCompare comparefn a b = 0"
  shows "sortCompare comparefn b a = 0"
proof -
  have "comparefn a b = Some 0"
    using consistentOn_value [OF assms(1-3)] assms(4) by simp
  moreover have "comparefn a b = Some 0 \<longrightarrow> comparefn b a = Some 0"
    using assms(1-3) unfolding consistentOn_def by blast
  ultimately show ?thesis
    by (simp add: sortCompare_def)
qed

lemma consistentOn_eq_trans:
  assumes "consistentOn comparefn xs" and "a \<in> set xs" and "b \<in> set xs" and "c \<in> set xs"
    and "sortCompare comparefn a b = 0" and "sortCompare comparefn b c = 0"
  shows "sortCompare comparefn a c = 0"
proof -
  have "comparefn a b = Some 0" and "comparefn b c = Some 0"
    using consistentOn_value [OF assms(1)] assms(2-6) by simp_all
  moreover have "comparefn a b = Some 0 \<and> comparefn b c = Some 0 \<longrightarrow> comparefn a c = Some 0"
    using assms(1-4) unfolding consistentOn_def by blast
  ultimately show ?thesis
    by (simp add: sortCompare_def)
qed

lemma consistentOn_less_trans:
  assumes "consistentOn comparefn xs" and "a \<in> set xs" and "b \<in> set xs" and "c \<in> set xs"
    and "sortCompare comparefn a b < 0" and "sortCompare comparefn b c < 0"
  shows "sortCompare comparefn a c < 0"
  using assms unfolding consistentOn_def by blast

lemma consistentOn_greater_trans:
  assumes "consistentOn comparefn xs" and "a \<in> set xs" and "b \<in> set xs" and "c \<in> set xs"
    and "sortCompare comparefn a b > 0" and "sortCompare comparefn b c > 0"
  shows "sortCompare comparefn a c > 0"
  using assms unfolding consistentOn_def by blast

lemma consistentOn_flip:
  assumes c: "consistentOn comparefn xs" and a: "a \<in> set xs" and b: "b \<in> set xs"
    and lt: "sortCompare comparefn a b < 0"
  shows "sortCompare comparefn b a > 0"
proof (rule ccontr)
  assume "\<not> sortCompare comparefn b a > 0"
  then consider "sortCompare comparefn b a < 0" | "sortCompare comparefn b a = 0"
    by linarith
  then show False
  proof cases
    case 1
    then have "sortCompare comparefn a a < 0"
      using consistentOn_less_trans [OF c a b a lt] by simp
    then show False
      using consistentOn_refl [OF c a] by simp
  next
    case 2
    then have "sortCompare comparefn a b = 0"
      using consistentOn_sym [OF c b a] by simp
    then show False
      using lt by simp
  qed
qed

lemma consistentOn_total:
  assumes c: "consistentOn comparefn xs" and a: "a \<in> set xs" and b: "b \<in> set xs"
  shows "sortCompare comparefn a b \<le> 0 \<or> sortCompare comparefn b a \<le> 0"
proof (rule ccontr)
  assume "\<not> (sortCompare comparefn a b \<le> 0 \<or> sortCompare comparefn b a \<le> 0)"
  then have "sortCompare comparefn a b > 0" and "sortCompare comparefn b a > 0"
    by simp_all
  then have "sortCompare comparefn a a > 0"
    using consistentOn_greater_trans [OF c a b a] by simp
  then show False
    using consistentOn_refl [OF c a] by simp
qed

lemma consistentOn_le_trans:
  assumes c: "consistentOn comparefn xs" and a: "a \<in> set xs" and b: "b \<in> set xs"
    and cc: "c \<in> set xs"
    and ab: "sortCompare comparefn a b \<le> 0" and bc: "sortCompare comparefn b c \<le> 0"
  shows "sortCompare comparefn a c \<le> 0"
proof (rule ccontr)
  assume "\<not> sortCompare comparefn a c \<le> 0"
  then have ac: "sortCompare comparefn a c > 0"
    by simp
  consider "sortCompare comparefn a b < 0" | "sortCompare comparefn a b = 0 \<and> sortCompare comparefn b c < 0"
    | "sortCompare comparefn a b = 0 \<and> sortCompare comparefn b c = 0"
    using ab bc by linarith
  then show False
  proof cases
    case 1
    then have "sortCompare comparefn b a > 0"
      by (rule consistentOn_flip [OF c a b])
    then have "sortCompare comparefn b c > 0"
      using consistentOn_greater_trans [OF c b a cc] ac by simp
    then show False
      using bc by simp
  next
    case 2
    then have "sortCompare comparefn c b > 0"
      using consistentOn_flip [OF c b cc] by simp
    then have "sortCompare comparefn a b > 0"
      using consistentOn_greater_trans [OF c a cc b] ac by simp
    then show False
      using ab by simp
  next
    case 3
    then have "sortCompare comparefn a c = 0"
      using consistentOn_eq_trans [OF c a b cc] by simp
    then show False
      using ac by simp
  qed
qed

lemma sorted_wrt_insertBy:
  assumes c: "consistentOn comparefn zs" and x: "x \<in> set zs" and ys: "set ys \<subseteq> set zs"
    and sorted: "sorted_wrt (\<lambda>a b. sortCompare comparefn a b \<le> 0) ys"
  shows "sorted_wrt (\<lambda>a b. sortCompare comparefn a b \<le> 0) (insertBy comparefn x ys)"
  using ys sorted
proof (induction ys)
  case Nil
  then show ?case by simp
next
  case (Cons y ys)
  have y: "y \<in> set zs" and sub: "set ys \<subseteq> set zs"
    using Cons.prems(1) by auto
  show ?case
  proof (cases "sortCompare comparefn x y \<le> 0")
    case True
    have "sortCompare comparefn x z \<le> 0" if "z \<in> set ys" for z
    proof -
      have "sortCompare comparefn y z \<le> 0"
        using Cons.prems(2) that by simp
      moreover have "z \<in> set zs"
        using that sub by auto
      ultimately show ?thesis
        using consistentOn_le_trans [OF c x y _ True] by blast
    qed
    with True Cons.prems(2) show ?thesis by auto
  next
    case False
    then have yx: "sortCompare comparefn y x \<le> 0"
      using consistentOn_total [OF c x y] by blast
    have "sorted_wrt (\<lambda>a b. sortCompare comparefn a b \<le> 0) (insertBy comparefn x ys)"
      using Cons.IH sub Cons.prems(2) by simp
    with False yx Cons.prems(2) show ?thesis
      by (auto simp: set_insertBy)
  qed
qed

lemma sorted_wrt_stableSort_aux:
  assumes c: "consistentOn comparefn zs" and xs: "set xs \<subseteq> set zs"
  shows "sorted_wrt (\<lambda>a b. sortCompare comparefn a b \<le> 0) (stableSort comparefn xs)"
  using xs
proof (induction xs)
  case Nil
  then show ?case by (simp add: stableSort_def)
next
  case (Cons x xs)
  have "sorted_wrt (\<lambda>a b. sortCompare comparefn a b \<le> 0)
          (insertBy comparefn x (stableSort comparefn xs))"
  proof (rule sorted_wrt_insertBy [OF c])
    show "x \<in> set zs" using Cons.prems by simp
    show "set (stableSort comparefn xs) \<subseteq> set zs" using Cons.prems by (simp add: set_stableSort)
    show "sorted_wrt (\<lambda>a b. sortCompare comparefn a b \<le> 0) (stableSort comparefn xs)"
      using Cons by simp
  qed
  then show ?case by (simp add: stableSort_def)
qed

lemma sorted_wrt_stableSort:
  "consistentOn comparefn xs \<Longrightarrow>
   sorted_wrt (\<lambda>a b. sortCompare comparefn a b \<le> 0) (stableSort comparefn xs)"
  by (rule sorted_wrt_stableSort_aux [where zs = xs]) simp_all

text \<open>Stability: the elements that the comparator does not separate keep their places.\<close>

lemma filter_insertBy:
  assumes c: "consistentOn comparefn zs" and x: "x \<in> set zs" and ys: "set ys \<subseteq> set zs"
    and e: "e \<in> set zs"
  shows "filter (\<lambda>b. sortCompare comparefn e b = 0) (insertBy comparefn x ys) =
         filter (\<lambda>b. sortCompare comparefn e b = 0) (x # ys)"
  using ys
proof (induction ys)
  case Nil
  then show ?case by simp
next
  case (Cons y ys)
  have y: "y \<in> set zs" and sub: "set ys \<subseteq> set zs"
    using Cons.prems by auto
  show ?case
  proof (cases "sortCompare comparefn x y \<le> 0")
    case True
    then show ?thesis by simp
  next
    case False
    have "\<not> (sortCompare comparefn e x = 0 \<and> sortCompare comparefn e y = 0)"
    proof
      assume both: "sortCompare comparefn e x = 0 \<and> sortCompare comparefn e y = 0"
      then have "sortCompare comparefn x e = 0"
        using consistentOn_sym [OF c e x] by simp
      then have "sortCompare comparefn x y = 0"
        using consistentOn_eq_trans [OF c x e y] both by simp
      then show False
        using False by simp
    qed
    then show ?thesis
      using False Cons.IH [OF sub] by auto
  qed
qed

lemma filter_stableSort_aux:
  assumes c: "consistentOn comparefn zs" and xs: "set xs \<subseteq> set zs" and e: "e \<in> set zs"
  shows "filter (\<lambda>b. sortCompare comparefn e b = 0) (stableSort comparefn xs) =
         filter (\<lambda>b. sortCompare comparefn e b = 0) xs"
  using xs
proof (induction xs)
  case Nil
  then show ?case by (simp add: stableSort_def)
next
  case (Cons x xs)
  have "filter (\<lambda>b. sortCompare comparefn e b = 0) (insertBy comparefn x (stableSort comparefn xs)) =
        filter (\<lambda>b. sortCompare comparefn e b = 0) (x # stableSort comparefn xs)"
  proof (rule filter_insertBy [OF c _ _ e])
    show "x \<in> set zs" using Cons.prems by simp
    show "set (stableSort comparefn xs) \<subseteq> set zs" using Cons.prems by (simp add: set_stableSort)
  qed
  then show ?case
    using Cons by (simp add: stableSort_def)
qed

lemma filter_stableSort:
  "consistentOn comparefn xs \<Longrightarrow> e \<in> set xs \<Longrightarrow>
   filter (\<lambda>b. sortCompare comparefn e b = 0) (stableSort comparefn xs) =
   filter (\<lambda>b. sortCompare comparefn e b = 0) xs"
  by (rule filter_stableSort_aux [where zs = xs]) simp_all

subsection \<open>The status comparator\<close>

lemma statusOrder_nonzero: "map_of statusOrder a = Some n \<Longrightarrow> n \<noteq> 0"
  by (auto simp: statusOrder_def split: if_splits)

lemma orderOf_rankOf:
  assumes "a \<notin> set objectPrototypeKeys"
  shows "orderOf a = Num (rankOf a)"
proof (cases "map_of statusOrder a")
  case None
  with assms show ?thesis
    by (simp add: orderOf_def statusOrder_get_def rankOf_def)
next
  case (Some n)
  then have "n \<noteq> 0" by (rule statusOrder_nonzero)
  with Some show ?thesis
    by (simp add: orderOf_def statusOrder_get_def rankOf_def truthy_def)
qed

lemma compareStatuses_own:
  assumes "a \<notin> set objectPrototypeKeys" and "b \<notin> set objectPrototypeKeys"
  shows "compareStatuses localeCompare a b =
           Some (if rankOf a \<noteq> rankOf b then rankOf a - rankOf b else localeCompare a b)"
  using orderOf_rankOf [OF assms(1)] orderOf_rankOf [OF assms(2)]
  by (simp add: compareStatuses_def js_minus_def Let_def)

lemma compareStatuses_statusBefore:
  assumes "a \<notin> set objectPrototypeKeys" and "b \<notin> set objectPrototypeKeys"
  shows "(sortCompare (compareStatuses localeCompare) a b \<le> 0) = statusBefore localeCompare a b"
  using compareStatuses_own [OF assms, of localeCompare]
  by (auto simp: sortCompare_def statusBefore_def)

lemma compareStatuses_zero:
  assumes "a \<notin> set objectPrototypeKeys" and "b \<notin> set objectPrototypeKeys"
  shows "(sortCompare (compareStatuses localeCompare) a b = 0) =
           (rankOf a = rankOf b \<and> localeCompare a b = 0)"
  using compareStatuses_own [OF assms, of localeCompare]
  by (auto simp: sortCompare_def)

lemma consistentOnD:
  assumes "consistentOn comparefn xs" and "a \<in> set xs" and "b \<in> set xs" and "c \<in> set xs"
  shows "comparefn a b \<noteq> None \<and>
        comparefn a a = Some 0 \<and>
        (comparefn a b = Some 0 \<longrightarrow> comparefn b a = Some 0) \<and>
        (comparefn a b = Some 0 \<and> comparefn b c = Some 0 \<longrightarrow> comparefn a c = Some 0) \<and>
        (sortCompare comparefn a b < 0 \<and> sortCompare comparefn b c < 0 \<longrightarrow>
           sortCompare comparefn a c < 0) \<and>
        (sortCompare comparefn a b > 0 \<and> sortCompare comparefn b c > 0 \<longrightarrow>
           sortCompare comparefn a c > 0)"
  using assms unfolding consistentOn_def by blast

lemma consistentComparatorD:
  assumes "consistentComparator localeCompare"
  shows "localeCompare a a = 0 \<and>
         (localeCompare a b = 0 \<longrightarrow> localeCompare b a = 0) \<and>
         (localeCompare a b = 0 \<and> localeCompare b c = 0 \<longrightarrow> localeCompare a c = 0) \<and>
         (localeCompare a b < 0 \<and> localeCompare b c < 0 \<longrightarrow> localeCompare a c < 0) \<and>
         (localeCompare a b > 0 \<and> localeCompare b c > 0 \<longrightarrow> localeCompare a c > 0)"
proof -
  have "consistentOn (\<lambda>a b. Some (localeCompare a b)) [a, b, c]"
    using assms unfolding consistentComparator_def by blast
  from consistentOnD [OF this, of a b c] show ?thesis
    by (simp add: sortCompare_def)
qed

lemma consistentOn_compareStatuses:
  assumes lc: "consistentComparator localeCompare"
    and own: "\<forall>s\<in>set statuses. s \<notin> set objectPrototypeKeys"
  shows "consistentOn (compareStatuses localeCompare) statuses"
  unfolding consistentOn_def
proof (intro ballI)
  fix a b c
  assume "a \<in> set statuses" and "b \<in> set statuses" and "c \<in> set statuses"
  then have a: "a \<notin> set objectPrototypeKeys" and b: "b \<notin> set objectPrototypeKeys"
    and c: "c \<notin> set objectPrototypeKeys"
    using own by auto
  define v where "v = (\<lambda>x y. if rankOf x \<noteq> rankOf y then rankOf x - rankOf y else localeCompare x y)"
  have cmp: "compareStatuses localeCompare x y = Some (v x y)"
    if "x \<notin> set objectPrototypeKeys" and "y \<notin> set objectPrototypeKeys" for x y
    using compareStatuses_own [OF that, of localeCompare] by (simp add: v_def)
  have sc: "sortCompare (compareStatuses localeCompare) x y = v x y"
    if "x \<notin> set objectPrototypeKeys" and "y \<notin> set objectPrototypeKeys" for x y
    using cmp [OF that] by (simp add: sortCompare_def)
  note d = consistentComparatorD [OF lc, of a b c]
  have 2: "v a a = 0"
    using d by (simp add: v_def)
  have 3: "v b a = 0" if "v a b = 0"
  proof -
    have "rankOf a = rankOf b" using that by (auto simp: v_def split: if_splits)
    moreover from this have "localeCompare a b = 0" using that by (simp add: v_def)
    ultimately show ?thesis using d by (simp add: v_def)
  qed
  have 4: "v a c = 0" if "v a b = 0" and "v b c = 0"
  proof -
    have r: "rankOf a = rankOf b" "rankOf b = rankOf c"
      using that by (auto simp: v_def split: if_splits)
    then have "localeCompare a b = 0" and "localeCompare b c = 0"
      using that by (simp_all add: v_def)
    then show ?thesis using r d by (simp add: v_def)
  qed
  have 5: "v a c < 0" if ab: "v a b < 0" and bc: "v b c < 0"
  proof -
    have rab: "rankOf a \<le> rankOf b" and rbc: "rankOf b \<le> rankOf c"
      using that by (auto simp: v_def split: if_splits)
    show ?thesis
    proof (cases "rankOf a = rankOf c")
      case True
      then have "rankOf a = rankOf b" and "rankOf b = rankOf c"
        using rab rbc by simp_all
      then have "localeCompare a b < 0" and "localeCompare b c < 0"
        using ab bc by (simp_all add: v_def)
      then have "localeCompare a c < 0" using d by blast
      with True show ?thesis by (simp add: v_def)
    next
      case False
      then show ?thesis using rab rbc by (simp add: v_def)
    qed
  qed
  have 6: "v a c > 0" if ab: "v a b > 0" and bc: "v b c > 0"
  proof -
    have rab: "rankOf b \<le> rankOf a" and rbc: "rankOf c \<le> rankOf b"
      using that by (auto simp: v_def split: if_splits)
    show ?thesis
    proof (cases "rankOf a = rankOf c")
      case True
      then have "rankOf a = rankOf b" and "rankOf b = rankOf c"
        using rab rbc by simp_all
      then have "localeCompare a b > 0" and "localeCompare b c > 0"
        using ab bc by (simp_all add: v_def)
      then have "localeCompare a c > 0" using d by blast
      with True show ?thesis by (simp add: v_def)
    next
      case False
      then show ?thesis using rab rbc by (simp add: v_def)
    qed
  qed
  show "compareStatuses localeCompare a b \<noteq> None \<and>
        compareStatuses localeCompare a a = Some 0 \<and>
        (compareStatuses localeCompare a b = Some 0 \<longrightarrow> compareStatuses localeCompare b a = Some 0) \<and>
        (compareStatuses localeCompare a b = Some 0 \<and> compareStatuses localeCompare b c = Some 0 \<longrightarrow>
           compareStatuses localeCompare a c = Some 0) \<and>
        (sortCompare (compareStatuses localeCompare) a b < 0 \<and>
           sortCompare (compareStatuses localeCompare) b c < 0 \<longrightarrow>
           sortCompare (compareStatuses localeCompare) a c < 0) \<and>
        (sortCompare (compareStatuses localeCompare) a b > 0 \<and>
           sortCompare (compareStatuses localeCompare) b c > 0 \<longrightarrow>
           sortCompare (compareStatuses localeCompare) a c > 0)"
    unfolding cmp [OF a b] cmp [OF a a] cmp [OF b a] cmp [OF b c] cmp [OF a c]
      sc [OF a b] sc [OF b c] sc [OF a c]
    using 2 3 4 5 6 by simp
qed

lemma getOrderedStatuses_own:
  assumes "consistentComparator localeCompare"
    and "\<forall>s\<in>set statuses. s \<notin> set objectPrototypeKeys"
  shows "getOrderedStatuses localeCompare statuses =
           Some (stableSort (compareStatuses localeCompare) statuses)"
  using consistentOn_compareStatuses [OF assms]
  by (simp add: getOrderedStatuses_def js_sort_def)

lemmas status_eval = stableSort_def sortCompare_def compareStatuses_def
  orderOf_def statusOrder_get_def statusOrder_def objectPrototypeKeys_def truthy_def js_minus_def
  js_def

subsection \<open>The collation of Basic Latin labels\<close>

lemma latinCollate_zero: "(latinCollate a b = 0) = (a = b)"
  by (auto simp: latinCollate_def codeUnitCompare_def)

lemma latinCollate_less:
  "(latinCollate a b < 0) =
     (toLowerCaseLatin1 a < toLowerCaseLatin1 b \<or> (toLowerCaseLatin1 a = toLowerCaseLatin1 b \<and> b < a))"
  by (auto simp: latinCollate_def codeUnitCompare_def)

lemma latinCollate_greater:
  "(latinCollate a b > 0) =
     (toLowerCaseLatin1 b < toLowerCaseLatin1 a \<or> (toLowerCaseLatin1 a = toLowerCaseLatin1 b \<and> a < b))"
  by (auto simp: latinCollate_def codeUnitCompare_def)

lemma consistentComparator_latinCollate: "consistentComparator latinCollate"
  unfolding consistentComparator_def consistentOn_def sortCompare_def
  by (auto simp: latinCollate_zero latinCollate_less latinCollate_greater)

subsection \<open>The ordering of the statuses\<close>

text \<open>
  Claim C3, as the code has it. Let \<open>localeCompare\<close> (the host's collation) be a
  consistent comparison function, as ECMAScript requires of it, and let no label be the
  name of a property that \<open>statusOrder\<close> inherits from \<open>Object.prototype\<close>. Then
  \<open>getOrderedStatuses\<close> returns the labels permuted into the order of the rank table (the
  listed rank, 999 for a label that is not listed), labels of equal rank standing in the
  order of \<open>localeCompare\<close>; labels of equal rank that \<open>localeCompare\<close> takes for equal
  keep their relative places. The labels Done, \<open>\<Agrave> faire\<close>, En cours, Mystery come out as
  \<open>\<Agrave> faire\<close>, En cours, Done, Mystery.
\<close>

theorem getOrderedStatuses_sorted:
  assumes lc: "consistentComparator localeCompare"
    and own: "\<forall>s\<in>set statuses. s \<notin> set objectPrototypeKeys"
  shows "(\<exists>ordered. getOrderedStatuses localeCompare statuses = Some ordered \<and>
            mset ordered = mset statuses \<and>
            sorted_wrt (statusBefore localeCompare) ordered \<and>
            (\<forall>e\<in>set statuses.
               filter (\<lambda>s. rankOf e = rankOf s \<and> localeCompare e s = 0) ordered =
               filter (\<lambda>s. rankOf e = rankOf s \<and> localeCompare e s = 0) statuses)) \<and>
         getOrderedStatuses localeCompare
           [js ''Done'', [192] @ js '' faire'', js ''En cours'', js ''Mystery''] =
           Some [[192] @ js '' faire'', js ''En cours'', js ''Done'', js ''Mystery'']"
proof -
  define ordered where "ordered = stableSort (compareStatuses localeCompare) statuses"
  have c: "consistentOn (compareStatuses localeCompare) statuses"
    using lc own by (rule consistentOn_compareStatuses)
  have 0: "getOrderedStatuses localeCompare statuses = Some ordered"
    unfolding ordered_def using lc own by (rule getOrderedStatuses_own)
  have 1: "mset ordered = mset statuses"
    by (simp add: ordered_def mset_stableSort)
  have s: "set ordered = set statuses"
    by (simp add: ordered_def set_stableSort)
  have "sorted_wrt (\<lambda>a b. sortCompare (compareStatuses localeCompare) a b \<le> 0) ordered"
    unfolding ordered_def using c by (rule sorted_wrt_stableSort)
  then have 2: "sorted_wrt (statusBefore localeCompare) ordered"
  proof (rule sorted_wrt_mono_rel [rotated])
    fix a b
    assume "a \<in> set ordered" and "b \<in> set ordered"
      and "sortCompare (compareStatuses localeCompare) a b \<le> 0"
    then show "statusBefore localeCompare a b"
      using own s compareStatuses_statusBefore [of a b localeCompare] by auto
  qed
  have 3: "filter (\<lambda>s. rankOf e = rankOf s \<and> localeCompare e s = 0) ordered =
           filter (\<lambda>s. rankOf e = rankOf s \<and> localeCompare e s = 0) statuses"
    if e: "e \<in> set statuses" for e
  proof -
    have eq: "(sortCompare (compareStatuses localeCompare) e x = 0) =
        (rankOf e = rankOf x \<and> localeCompare e x = 0)" if "x \<in> set statuses" for x
      using own e that compareStatuses_zero [of e x localeCompare] by auto
    have "filter (\<lambda>s. rankOf e = rankOf s \<and> localeCompare e s = 0) ordered =
        filter (\<lambda>b. sortCompare (compareStatuses localeCompare) e b = 0) ordered"
      using eq s by (intro filter_cong) auto
    also have "\<dots> = filter (\<lambda>b. sortCompare (compareStatuses localeCompare) e b = 0) statuses"
      unfolding ordered_def using c e by (rule filter_stableSort)
    also have "\<dots> = filter (\<lambda>s. rankOf e = rankOf s \<and> localeCompare e s = 0) statuses"
      using eq by (intro filter_cong) auto
    finally show ?thesis .
  qed
  have "\<forall>s\<in>set [js ''Done'', [192] @ js '' faire'', js ''En cours'', js ''Mystery''].
      s \<notin> set objectPrototypeKeys"
    by (simp add: objectPrototypeKeys_def js_def)
  with lc have "getOrderedStatuses localeCompare
           [js ''Done'', [192] @ js '' faire'', js ''En cours'', js ''Mystery''] =
      Some (stableSort (compareStatuses localeCompare)
           [js ''Done'', [192] @ js '' faire'', js ''En cours'', js ''Mystery''])"
    by (rule getOrderedStatuses_own)
  also have "stableSort (compareStatuses localeCompare)
           [js ''Done'', [192] @ js '' faire'', js ''En cours'', js ''Mystery''] =
           [[192] @ js '' faire'', js ''En cours'', js ''Done'', js ''Mystery'']"
    by (simp add: status_eval)
  finally have 4: "getOrderedStatuses localeCompare
           [js ''Done'', [192] @ js '' faire'', js ''En cours'', js ''Mystery''] =
           Some [[192] @ js '' faire'', js ''En cours'', js ''Done'', js ''Mystery'']" .
  from 0 1 2 3 4 show ?thesis by blast
qed

lemmas collate_eval = latinCollate_def codeUnitCompare_def toLowerCaseLatin1_def

theorem getOrderedStatuses_sorted_witness:
  "getOrderedStatuses latinCollate
     [js ''Done'', js ''Review'', js ''Open'', js ''DONE'', js ''blocked''] =
     Some [js ''Open'', js ''Done'', js ''DONE'', js ''blocked'', js ''Review'']"
proof -
  have own: "\<forall>s\<in>set [js ''Done'', js ''Review'', js ''Open'', js ''DONE'', js ''blocked''].
      s \<notin> set objectPrototypeKeys"
    by (simp add: objectPrototypeKeys_def js_def)
  have "stableSort (compareStatuses latinCollate)
      [js ''Done'', js ''Review'', js ''Open'', js ''DONE'', js ''blocked''] =
      [js ''Open'', js ''Done'', js ''DONE'', js ''blocked'', js ''Review'']"
    by (simp add: status_eval collate_eval)
  moreover obtain ordered where
    "getOrderedStatuses latinCollate
       [js ''Done'', js ''Review'', js ''Open'', js ''DONE'', js ''blocked''] = Some ordered"
    using getOrderedStatuses_sorted [OF consistentComparator_latinCollate own] by blast
  ultimately show ?thesis
    by (simp add: getOrderedStatuses_def js_sort_def split: if_splits)
qed

text \<open>
  Whenever the host's collation puts \<open>Done\<close> before \<open>DONE\<close>, so does the ordering.
\<close>

lemma getOrderedStatuses_DONE_Done:
  assumes lc: "consistentComparator localeCompare"
    and pos: "localeCompare (js ''DONE'') (js ''Done'') > 0"
  shows "getOrderedStatuses localeCompare [js ''DONE'', js ''Done''] = Some [js ''Done'', js ''DONE'']"
proof -
  have "\<forall>s\<in>set [js ''DONE'', js ''Done'']. s \<notin> set objectPrototypeKeys"
    by (simp add: objectPrototypeKeys_def js_def)
  with lc have "getOrderedStatuses localeCompare [js ''DONE'', js ''Done''] =
      Some (stableSort (compareStatuses localeCompare) [js ''DONE'', js ''Done''])"
    by (rule getOrderedStatuses_own)
  moreover have "compareStatuses localeCompare (js ''DONE'') (js ''Done'') =
      Some (localeCompare (js ''DONE'') (js ''Done''))"
    by (simp add: compareStatuses_def orderOf_def statusOrder_get_def statusOrder_def truthy_def
        js_def)
  ultimately show ?thesis
    using pos by (simp add: stableSort_def sortCompare_def)
qed

text \<open>
  Claim C3 as stated fails: ties of equal rank are broken by \<open>localeCompare\<close>, not by
  code units. \<open>DONE\<close> and \<open>Done\<close> both have rank 3, and by code units \<open>DONE\<close> comes first
  (\<open>O\<close> is 79, \<open>o\<close> is 111); locale-sensitive collation puts \<open>Done\<close> first
  (\<open>'DONE'.localeCompare('Done')\<close> is positive), and the ordering of \<open>DONE\<close>, \<open>Done\<close> is
  \<open>Done\<close>, \<open>DONE\<close>.
\<close>

theorem getOrderedStatuses_collation_counterexample:
  "getOrderedStatuses latinCollate [js ''DONE'', js ''Done''] = Some [js ''Done'', js ''DONE''] \<and>
   rankOf (js ''DONE'') = 3 \<and> rankOf (js ''Done'') = 3 \<and>
   js ''DONE'' < js ''Done''"
proof -
  have "latinCollate (js ''DONE'') (js ''Done'') > 0"
    by (simp add: collate_eval js_def)
  then have "getOrderedStatuses latinCollate [js ''DONE'', js ''Done''] =
      Some [js ''Done'', js ''DONE'']"
    by (rule getOrderedStatuses_DONE_Done [OF consistentComparator_latinCollate])
  moreover have "rankOf (js ''DONE'') = 3 \<and> rankOf (js ''Done'') = 3"
    by (simp add: rankOf_def statusOrder_def js_def)
  moreover have "js ''DONE'' < js ''Done''"
    by (simp add: js_def)
  ultimately show ?thesis by blast
qed

text \<open>
  A label that names an inherited property is outside the theorem above:
  \<open>statusOrder['constructor']\<close> is the function inherited from \<open>Object.prototype\<close>, not
  \<open>undefined\<close>, so the label gets no rank 999; its comparison with \<open>Done\<close> is \<open>NaN\<close>, the
  comparator is not consistent and the order of the array is left to the implementation.
\<close>

lemma compareStatuses_inherited:
  "statusOrder_get (js ''constructor'') = Some (Inherited (js ''constructor'')) \<and>
   compareStatuses localeCompare (js ''constructor'') (js ''Done'') = None \<and>
   getOrderedStatuses localeCompare [js ''constructor'', js ''Done''] = None"
proof -
  have 1: "statusOrder_get (js ''constructor'') = Some (Inherited (js ''constructor''))"
    by (simp add: statusOrder_get_def statusOrder_def objectPrototypeKeys_def js_def)
  have 2: "compareStatuses localeCompare (js ''constructor'') (js ''Done'') = None"
    by (simp add: compareStatuses_def orderOf_def statusOrder_get_def statusOrder_def
        objectPrototypeKeys_def truthy_def js_minus_def js_def)
  have "\<not> consistentOn (compareStatuses localeCompare) [js ''constructor'', js ''Done'']"
  proof
    assume "consistentOn (compareStatuses localeCompare) [js ''constructor'', js ''Done'']"
    from consistentOnD [OF this, of "js ''constructor''" "js ''Done''" "js ''Done''"]
    show False
      using 2 by simp
  qed
  then have "getOrderedStatuses localeCompare [js ''constructor'', js ''Done''] = None"
    by (simp add: getOrderedStatuses_def js_sort_def)
  with 1 2 show ?thesis by blast
qed

section \<open>Properties of calculateMetrics\<close>

lemma fold_last_max:
  fixes cnt :: "'a \<Rightarrow> int"
  defines "pick \<equiv> (\<lambda>b a. if cnt a > cnt b then a else b)"
  shows "(fold pick ks a0 = a0 \<and> (\<forall>k\<in>set ks. cnt k < cnt a0)) \<or>
         (\<exists>pre post. ks = pre @ fold pick ks a0 # post \<and> cnt a0 \<le> cnt (fold pick ks a0) \<and>
            (\<forall>k\<in>set pre. cnt k \<le> cnt (fold pick ks a0)) \<and>
            (\<forall>k\<in>set post. cnt k < cnt (fold pick ks a0)))"
proof (induction ks rule: rev_induct)
  case Nil
  then show ?case by simp
next
  case (snoc k ks)
  let ?r = "fold pick ks a0"
  show ?case
  proof (cases "cnt ?r > cnt k")
    case True
    then have r: "fold pick (ks @ [k]) a0 = ?r"
      by (simp add: pick_def)
    from snoc.IH show ?thesis
    proof (elim disjE conjE exE)
      assume "?r = a0" and "\<forall>k\<in>set ks. cnt k < cnt a0"
      with True r show ?thesis by auto
    next
      fix pre post
      assume "ks = pre @ ?r # post" and "cnt a0 \<le> cnt ?r"
        and "\<forall>k\<in>set pre. cnt k \<le> cnt ?r" and "\<forall>k\<in>set post. cnt k < cnt ?r"
      then have "ks @ [k] = pre @ ?r # (post @ [k]) \<and> cnt a0 \<le> cnt ?r \<and>
          (\<forall>k\<in>set pre. cnt k \<le> cnt ?r) \<and> (\<forall>x\<in>set (post @ [k]). cnt x < cnt ?r)"
        using True by auto
      then show ?thesis
        unfolding r by blast
    qed
  next
    case False
    then have r: "fold pick (ks @ [k]) a0 = k"
      by (simp add: pick_def)
    have le: "cnt ?r \<le> cnt k"
      using False by simp
    have "cnt a0 \<le> cnt k \<and> (\<forall>x\<in>set ks. cnt x \<le> cnt k)"
      using snoc.IH
    proof (elim disjE conjE exE)
      assume "?r = a0" and "\<forall>k\<in>set ks. cnt k < cnt a0"
      with le show ?thesis by fastforce
    next
      fix pre post
      assume ks: "ks = pre @ ?r # post" and "cnt a0 \<le> cnt ?r"
        and "\<forall>k\<in>set pre. cnt k \<le> cnt ?r" and "\<forall>k\<in>set post. cnt k < cnt ?r"
      then have "cnt a0 \<le> cnt k" and "\<forall>x\<in>set pre. cnt x \<le> cnt k"
        and "\<forall>x\<in>set post. cnt x \<le> cnt k"
        using le by fastforce+
      moreover have "set ks = set pre \<union> {?r} \<union> set post"
        by (subst ks) auto
      ultimately show ?thesis
        using le by auto
    qed
    then have "ks @ [k] = ks @ k # [] \<and> cnt a0 \<le> cnt k \<and>
        (\<forall>x\<in>set ks. cnt x \<le> cnt k) \<and> (\<forall>x\<in>set []. cnt x < cnt k)"
      by simp
    then show ?thesis
      unfolding r by blast
  qed
qed

lemma countIn_nonneg:
  assumes "\<forall>(k, v)\<in>set typeData. 0 \<le> v"
  shows "0 \<le> countIn typeData k"
proof (cases "map_of typeData k")
  case None
  then show ?thesis by (simp add: countIn_def)
next
  case (Some v)
  then have "(k, v) \<in> set typeData" by (rule map_of_SomeD)
  with assms have "0 \<le> v" by auto
  with Some show ?thesis by (simp add: countIn_def)
qed

lemma countIn_absent: "k \<notin> fst ` set typeData \<Longrightarrow> countIn typeData k = 0"
  by (simp add: countIn_def map_of_eq_None_iff [THEN iffD2])

text \<open>
  Claim C8, as the code has it. For every type distribution with counts that are not
  negative: the empty distribution yields \<open>N/A\<close>; otherwise \<open>mostCommonType\<close> is a key of
  maximal count, and every key that comes after it in the iteration order has a strictly
  smaller count: among the keys of maximal count it is the last one, not the first.
\<close>

theorem mostCommonTypeOf_last_max:
  assumes nonneg: "\<forall>(k, v)\<in>set typeData. 0 \<le> v"
  shows "(typeData = [] \<longrightarrow> mostCommonTypeOf typeData = js ''N/A'') \<and>
         (typeData \<noteq> [] \<longrightarrow>
            (\<exists>pre post. map fst typeData = pre @ mostCommonTypeOf typeData # post \<and>
               (\<forall>k\<in>set pre. countIn typeData k \<le> countIn typeData (mostCommonTypeOf typeData)) \<and>
               (\<forall>k\<in>set post. countIn typeData k < countIn typeData (mostCommonTypeOf typeData))))"
proof (cases typeData)
  case Nil
  then show ?thesis by (simp add: mostCommonTypeOf_def)
next
  case (Cons p ps)
  define ks where "ks = map fst typeData"
  define a0 where "a0 = (if fst p \<noteq> [] then fst p else js ''N/A'')"
  define pick where "pick = (\<lambda>b a. if countIn typeData a > countIn typeData b then a else b)"
  have m: "mostCommonTypeOf typeData = fold pick ks a0"
    using Cons by (simp add: mostCommonTypeOf_def ks_def a0_def pick_def)
  have p: "fst p \<in> set ks"
    using Cons by (simp add: ks_def)
  have "\<not> (\<forall>k\<in>set ks. countIn typeData k < countIn typeData a0)"
  proof (cases "a0 \<in> set ks")
    case True
    then show ?thesis by auto
  next
    case False
    then have "countIn typeData a0 = 0"
      by (simp add: ks_def countIn_absent)
    moreover have "0 \<le> countIn typeData (fst p)"
      using nonneg by (rule countIn_nonneg)
    ultimately have "\<not> countIn typeData (fst p) < countIn typeData a0"
      by simp
    with p show ?thesis
      by blast
  qed
  then have "\<exists>pre post. ks = pre @ fold pick ks a0 # post \<and>
      countIn typeData a0 \<le> countIn typeData (fold pick ks a0) \<and>
      (\<forall>k\<in>set pre. countIn typeData k \<le> countIn typeData (fold pick ks a0)) \<and>
      (\<forall>k\<in>set post. countIn typeData k < countIn typeData (fold pick ks a0))"
    using fold_last_max [of "countIn typeData" ks a0] unfolding pick_def by blast
  then show ?thesis
    using Cons unfolding m ks_def by blast
qed

theorem mostCommonTypeOf_last_max_witness:
  "mostCommonTypeOf [(js ''Bug'', 3), (js ''Task'', 5), (js ''Story'', 5), (js ''Epic'', 1)] = js ''Story'' \<and>
   mostCommonTypeOf [] = js ''N/A''"
proof -
  have "\<forall>(k, v)\<in>set [(js ''Bug'', 3), (js ''Task'', 5), (js ''Story'', 5), (js ''Epic'', 1::int)]. 0 \<le> v"
    by simp
  from mostCommonTypeOf_last_max [OF this]
  have "\<exists>pre post. map fst [(js ''Bug'', 3), (js ''Task'', 5), (js ''Story'', 5), (js ''Epic'', 1::int)] =
      pre @ mostCommonTypeOf [(js ''Bug'', 3), (js ''Task'', 5), (js ''Story'', 5), (js ''Epic'', 1)] # post"
    by auto
  moreover have "mostCommonTypeOf [(js ''Bug'', 3), (js ''Task'', 5), (js ''Story'', 5), (js ''Epic'', 1)] = js ''Story''"
    by (simp add: mostCommonTypeOf_def countIn_def js_def)
  moreover have "mostCommonTypeOf [] = js ''N/A''"
    by (simp add: mostCommonTypeOf_def)
  ultimately show ?thesis by simp
qed

text \<open>
  Claim C8 as stated fails: for \<open>{Bug: 3, Task: 3}\<close> the result is \<open>Task\<close>, the key
  encountered last, and not \<open>Bug\<close>, the key encountered first.
\<close>

theorem mostCommonTypeOf_tie_counterexample:
  "mostCommonTypeOf [(js ''Bug'', 3), (js ''Task'', 3)] = js ''Task'' \<and>
   mostCommonTypeOf [(js ''Bug'', 3), (js ''Task'', 3)] \<noteq> js ''Bug''"
  by (simp add: mostCommonTypeOf_def countIn_def js_def)

lemma sumCounts_fold: "fold (\<lambda>w sum. sum + (if wcount w \<noteq> 0 then wcount w else 0)) weeks s =
    s + sum_list (map wcount weeks)"
  by (induction weeks arbitrary: s) auto

lemma sumCounts_sum_list: "sumCounts weeks = sum_list (map wcount weeks)"
  by (simp add: sumCounts_def sumCounts_fold)

lemma halfAvg_meanCount: "halfAvg weeks = meanCount weeks"
  by (cases weeks) (simp_all add: halfAvg_def meanCount_def sumCounts_sum_list)

lemma meanCount_nonneg:
  assumes "\<forall>w\<in>set weeks. 0 \<le> wcount w"
  shows "0 \<le> meanCount weeks"
proof -
  have "0 \<le> sum_list (map wcount weeks)"
    using assms by (intro sum_list_nonneg) auto
  then show ?thesis
    by (simp add: meanCount_def)
qed

lemma trendOf_specTrend:
  assumes nonneg: "\<forall>w\<in>set weeklyData. 0 \<le> wcount w"
  shows "(fst (trendOf weeklyData), \<bar>snd (trendOf weeklyData)\<bar>) = specTrend weeklyData"
proof -
  define recent where "recent = drop (length weeklyData - 4) weeklyData"
  define n where "n = length recent"
  define firstMean where "firstMean = meanCount (take (n div 2) recent)"
  define secondMean where "secondMean = meanCount (drop (n div 2) recent)"
  have "set (take (n div 2) recent) \<subseteq> set weeklyData"
    unfolding recent_def by (meson set_take_subset set_drop_subset subset_trans)
  then have "0 \<le> firstMean"
    unfolding firstMean_def using nonneg by (intro meanCount_nonneg) auto
  then have pos: "(0 < firstMean) = (firstMean \<noteq> 0)"
    by auto
  have small: "firstMean = 0" if "\<not> 2 \<le> n"
  proof -
    have "n div 2 = 0" using that by simp
    then show ?thesis by (simp add: firstMean_def meanCount_def)
  qed
  show ?thesis
    using pos small
    by (simp add: trendOf_def specTrend_def recentWeeksOf_def halfAvg_meanCount Let_def
        recent_def [symmetric] n_def [symmetric] firstMean_def [symmetric]
        secondMean_def [symmetric])
qed

text \<open>
  Claim C4. For every sequence of weekly buckets whose counts are not negative, the trend
  and the magnitude that \<open>calculateMetrics\<close> reports are those of \<open>specTrend\<close>: of the
  last four buckets (or fewer), the first \<open>n div 2\<close> form the first half and the others
  the second; when the mean of the first half is 0 the trend is \<open>stable\<close> with magnitude 0;
  otherwise the percentage is \<open>(secondMean - firstMean) / firstMean * 100\<close>, the trend is
  \<open>up\<close> above 10, \<open>down\<close> below \<open>- 10\<close> and \<open>stable\<close> between, and the magnitude is the
  absolute value of the percentage. (Exact arithmetic stands for the program's floating
  point.) The counts 5, 5, 12, 13 give \<open>up\<close> and 150; the counts 0, 0, 3, 4 give \<open>stable\<close>
  and 0.
\<close>

theorem calculateMetrics_trend:
  assumes "\<forall>w\<in>set (tickets_per_week a). 0 \<le> wcount w"
  shows "(trend (calculateMetrics a), trendValue (calculateMetrics a)) =
           specTrend (tickets_per_week a)"
  using trendOf_specTrend [OF assms] by (simp add: calculateMetrics_def Let_def)

theorem calculateMetrics_trend_witness:
  "(trend (calculateMetrics
      \<lparr>tickets_per_week =
         [\<lparr>week = js ''W31'', wcount = 5\<rparr>, \<lparr>week = js ''W32'', wcount = 5\<rparr>,
          \<lparr>week = js ''W33'', wcount = 12\<rparr>, \<lparr>week = js ''W34'', wcount = 13\<rparr>],
       priority_distribution = [], type_distribution = [], avg_resolution_time = 0,
       total_tickets = 35, weekly_average = 0\<rparr>),
    trendValue (calculateMetrics
      \<lparr>tickets_per_week =
         [\<lparr>week = js ''W31'', wcount = 5\<rparr>, \<lparr>week = js ''W32'', wcount = 5\<rparr>,
          \<lparr>week = js ''W33'', wcount = 12\<rparr>, \<lparr>week = js ''W34'', wcount = 13\<rparr>],
       priority_distribution = [], type_distribution = [], avg_resolution_time = 0,
       total_tickets = 35, weekly_average = 0\<rparr>)) = (js ''up'', 150) \<and>
   (trend (calculateMetrics
      \<lparr>tickets_per_week =
         [\<lparr>week = js ''W31'', wcount = 0\<rparr>, \<lparr>week = js ''W32'', wcount = 0\<rparr>,
          \<lparr>week = js ''W33'', wcount = 3\<rparr>, \<lparr>week = js ''W34'', wcount = 4\<rparr>],
       priority_distribution = [], type_distribution = [], avg_resolution_time = 0,
       total_tickets = 7, weekly_average = 0\<rparr>),
    trendValue (calculateMetrics
      \<lparr>tickets_per_week =
         [\<lparr>week = js ''W31'', wcount = 0\<rparr>, \<lparr>week = js ''W32'', wcount = 0\<rparr>,
          \<lparr>week = js ''W33'', wcount = 3\<rparr>, \<lparr>week = js ''W34'', wcount = 4\<rparr>],
       priority_distribution = [], type_distribution = [], avg_resolution_time = 0,
       total_tickets = 7, weekly_average = 0\<rparr>)) = (js ''stable'', 0)"
proof -
  have 1: "specTrend
         [\<lparr>week = js ''W31'', wcount = 5\<rparr>, \<lparr>week = js ''W32'', wcount = 5\<rparr>,
          \<lparr>week = js ''W33'', wcount = 12\<rparr>, \<lparr>week = js ''W34'', wcount = 13\<rparr>] = (js ''up'', 150)"
    by (simp add: specTrend_def meanCount_def Let_def)
  have 2: "specTrend
         [\<lparr>week = js ''W31'', wcount = 0\<rparr>, \<lparr>week = js ''W32'', wcount = 0\<rparr>,
          \<lparr>week = js ''W33'', wcount = 3\<rparr>, \<lparr>week = js ''W34'', wcount = 4\<rparr>] = (js ''stable'', 0)"
    by (simp add: specTrend_def meanCount_def Let_def)
  show ?thesis
    using calculateMetrics_trend [of "\<lparr>tickets_per_week =
         [\<lparr>week = js ''W31'', wcount = 5\<rparr>, \<lparr>week = js ''W32'', wcount = 5\<rparr>,
          \<lparr>week = js ''W33'', wcount = 12\<rparr>, \<lparr>week = js ''W34'', wcount = 13\<rparr>],
       priority_distribution = [], type_distribution = [], avg_resolution_time = 0,
       total_tickets = 35, weekly_average = 0\<rparr>"]
      calculateMetrics_trend [of "\<lparr>tickets_per_week =
         [\<lparr>week = js ''W31'', wcount = 0\<rparr>, \<lparr>week = js ''W32'', wcount = 0\<rparr>,
          \<lparr>week = js ''W33'', wcount = 3\<rparr>, \<lparr>week = js ''W34'', wcount = 4\<rparr>],
       priority_distribution = [], type_distribution = [], avg_resolution_time = 0,
       total_tickets = 7, weekly_average = 0\<rparr>"]
    by (simp add: 1 2)
qed

end
